theory Spec2Isabelle
  imports Main "HOL-Library.Sublist" "HOL-Library.Word"
begin

section \<open>JavaScript values used by the scraper\<close>

text \<open>
  The program is \<^verbatim>\<open>src/main.ts\<close>. A JavaScript string is a sequence of 16-bit code units
  and is modelled as a list of 16-bit words; \<open>str\<close> gives the string of an ASCII literal
  of the program text and \<open>ch\<close> the code unit of an ASCII character. The white space of
  \<^verbatim>\<open>trim\<close> and of the regular-expression class \<^verbatim>\<open>\s\<close> is the full set of the language
  (all of it lies in the Basic Multilingual Plane), and \<^verbatim>\<open>\d\<close> is the ten ASCII digits.
  The Unicode case conversions \<^verbatim>\<open>toLowerCase\<close> and \<^verbatim>\<open>toUpperCase\<close>, the \<^verbatim>\<open>URL\<close> parser and the
  clock belong to the platform and are parameters (the record \<open>platform\<close> below).
  A value of type \<^verbatim>\<open>string | undefined\<close> is an option (\<open>None\<close> is \<^verbatim>\<open>undefined\<close>); a thrown
  exception or a rejected promise is the left summand of a sum type.
\<close>

type_synonym code_unit = "16 word"

type_synonym js_string = "code_unit list"

definition ch :: "char \<Rightarrow> code_unit" where
  "ch c = of_char c"

definition str :: "string \<Rightarrow> js_string" where
  "str s = map ch s"

datatype js_error = TypeError | ServiceError

type_synonym 'a result = "js_error + 'a"

definition truthy :: "js_string option \<Rightarrow> bool" where
  \<comment> \<open>ToBoolean on \<^verbatim>\<open>string | undefined\<close>: undefined and the empty string are falsy\<close>
  "truthy v = (case v of None \<Rightarrow> False | Some s \<Rightarrow> s \<noteq> [])"

definition js_and :: "js_string option \<Rightarrow> js_string option \<Rightarrow> js_string option" where
  \<comment> \<open>\<^verbatim>\<open>a && b\<close>: the left operand when it is falsy, the right operand otherwise\<close>
  "js_and a b = (if truthy a then b else a)"

definition is_space :: "code_unit \<Rightarrow> bool" where
  \<comment> \<open>WhiteSpace and LineTerminator of ECMAScript: what \<^verbatim>\<open>trim\<close> removes and \<^verbatim>\<open>\s\<close> matches.
     TAB, LF, VT, FF, CR, SPACE, NO-BREAK SPACE, OGHAM SPACE MARK, EN QUAD to HAIR SPACE,
     LINE and PARAGRAPH SEPARATOR, NARROW NO-BREAK SPACE, MEDIUM MATHEMATICAL SPACE,
     IDEOGRAPHIC SPACE, ZERO WIDTH NO-BREAK SPACE\<close>
  "is_space c =
     (c \<in> set [0x0009, 0x000A, 0x000B, 0x000C, 0x000D, 0x0020, 0x00A0, 0x1680, 0x2028,
               0x2029, 0x202F, 0x205F, 0x3000, 0xFEFF]
      \<or> (0x2000 \<le> c \<and> c \<le> 0x200A))"

definition is_digit :: "code_unit \<Rightarrow> bool" where
  \<comment> \<open>\<^verbatim>\<open>\d\<close>\<close>
  "is_digit c = (c \<in> set (str ''0123456789''))"

definition trim :: "js_string \<Rightarrow> js_string" where
  \<comment> \<open>\<^verbatim>\<open>String.prototype.trim\<close>\<close>
  "trim s = rev (dropWhile is_space (rev (dropWhile is_space s)))"

fun str_includes :: "js_string \<Rightarrow> js_string \<Rightarrow> bool" where
  \<comment> \<open>\<^verbatim>\<open>s.includes(t)\<close>: \<open>t\<close> occurs in \<open>s\<close> as a contiguous substring\<close>
  "str_includes [] t = (t = [])"
| "str_includes (c # cs) t = (prefix t (c # cs) \<or> str_includes cs t)"

fun join :: "js_string \<Rightarrow> js_string list \<Rightarrow> js_string" where
  \<comment> \<open>\<^verbatim>\<open>Array.prototype.join\<close>\<close>
  "join sep [] = []"
| "join sep [x] = x"
| "join sep (x # y # ys) = x @ sep @ join sep (y # ys)"

fun decimal :: "nat \<Rightarrow> js_string" where
  \<comment> \<open>the decimal digits of a natural number, as \<^verbatim>\<open>Number.prototype.toString\<close> prints it\<close>
  "decimal n =
     (if n < 10 then [str ''0123456789'' ! n]
      else decimal (n div 10) @ [str ''0123456789'' ! (n mod 10)])"

declare decimal.simps [simp del]

definition Number_toString :: "int option \<Rightarrow> js_string" where
  \<comment> \<open>an integral Number, or NaN (\<open>None\<close>), converted to a string\<close>
  "Number_toString v =
     (case v of None \<Rightarrow> str ''NaN''
      | Some i \<Rightarrow> if i < 0 then ch CHR ''-'' # decimal (nat (- i)) else decimal (nat i))"

section \<open>The platform\<close>

text \<open>
  The \<^verbatim>\<open>URL\<close> class belongs to the platform. Its record, the \<^verbatim>\<open>search\<close> setter and the
  serializer follow the URL Standard. The host of a parsed URL is kept in its serialized
  form.
\<close>

datatype url_path = Opaque js_string | Segments "js_string list"

record url =
  scheme :: js_string
  username :: js_string
  password :: js_string
  host :: "js_string option"
  port :: "nat option"
  path :: url_path
  query :: "js_string option"
  fragment :: "js_string option"

record platform =
  URL_new :: "js_string \<Rightarrow> url option"
  toLowerCase :: "js_string \<Rightarrow> js_string"
  toUpperCase :: "js_string \<Rightarrow> js_string"
  currentYear :: int

text \<open>
  \<open>URL_new pf s\<close> is \<^verbatim>\<open>new URL(s)\<close>, with \<open>None\<close> for the \<^verbatim>\<open>TypeError\<close> that the constructor
  throws on a string that does not parse as an absolute URL; \<open>toLowerCase pf\<close> and
  \<open>toUpperCase pf\<close> are \<^verbatim>\<open>String.prototype.toLowerCase\<close> and \<^verbatim>\<open>toUpperCase\<close>;
  \<open>currentYear pf\<close> is \<^verbatim>\<open>new Date().getFullYear()\<close>. Where a result depends on how the
  platform treats particular strings, the following facts of the standards are assumed of
  it, and nothing else.
\<close>

definition ascii_lower :: "code_unit \<Rightarrow> code_unit" where
  "ascii_lower c = (if ch CHR ''A'' \<le> c \<and> c \<le> ch CHR ''Z'' then c + 0x20 else c)"

definition ascii_upper :: "code_unit \<Rightarrow> code_unit" where
  "ascii_upper c = (if ch CHR ''a'' \<le> c \<and> c \<le> ch CHR ''z'' then c - 0x20 else c)"

definition lowercases_ascii :: "platform \<Rightarrow> bool" where
  \<comment> \<open>Unicode: the lower case of a string of ASCII characters is taken character by
     character, and only the letters A to Z change\<close>
  "lowercases_ascii pf =
     (\<forall>s. (\<forall>c\<in>set s. c < 0x80) \<longrightarrow> toLowerCase pf s = map ascii_lower s)"

definition is_lower_letter :: "code_unit \<Rightarrow> bool" where
  "is_lower_letter c = (ch CHR ''a'' \<le> c \<and> c \<le> ch CHR ''z'')"

definition plain_domain :: "js_string \<Rightarrow> bool" where
  \<comment> \<open>one or more labels of lower-case ASCII letters, separated by single dots\<close>
  "plain_domain h =
     (h \<noteq> [] \<and> (\<forall>c\<in>set h. is_lower_letter c \<or> c = ch CHR ''.'')
      \<and> hd h \<noteq> ch CHR ''.'' \<and> last h \<noteq> ch CHR ''.''
      \<and> \<not> sublist (str ''..'') h)"

definition plain_query :: "js_string \<Rightarrow> bool" where
  "plain_query q =
     (\<forall>c\<in>set q. is_lower_letter c \<or> c \<in> set (str ''0123456789'')
            \<or> c = ch CHR ''='' \<or> c = ch CHR ''&'')"

definition parses_urls :: "platform \<Rightarrow> bool" where
  \<comment> \<open>URL Standard, parsing without a base URL: a string without a colon has no scheme
     and does not parse; \<^verbatim>\<open>https://\<close>, a plain domain, \<^verbatim>\<open>?\<close> and a plain query parse to that
     host, the path of one empty segment and that query\<close>
  "parses_urls pf =
     ((\<forall>s. ch CHR '':'' \<notin> set s \<longrightarrow> URL_new pf s = None)
      \<and> (\<forall>h q. plain_domain h \<and> plain_query q \<longrightarrow>
             URL_new pf (str ''https://'' @ h @ str ''?'' @ q)
               = Some \<lparr>scheme = str ''https'', username = [], password = [], host = Some h,
                       port = None, path = Segments [[]], query = Some q, fragment = None\<rparr>))"

definition simple_URL_new :: "js_string \<Rightarrow> url option" where
  \<comment> \<open>a parser for the strings of \<open>parses_urls\<close> only, to have a platform at hand for
     examples\<close>
  "simple_URL_new s =
     (if prefix (str ''https://'') s
      then (let rest = drop 8 s;
                h = takeWhile (\<lambda>c. c \<noteq> ch CHR ''?'') rest;
                after = dropWhile (\<lambda>c. c \<noteq> ch CHR ''?'') rest
            in case after of
                 [] \<Rightarrow> None
               | _ # q \<Rightarrow>
                   if plain_domain h \<and> plain_query q
                   then Some \<lparr>scheme = str ''https'', username = [], password = [],
                              host = Some h, port = None, path = Segments [[]],
                              query = Some q, fragment = None\<rparr>
                   else None)
      else None)"

definition example_platform :: "int \<Rightarrow> platform" where
  \<comment> \<open>a platform for the examples, in the given year: on ASCII text and on the URLs of
     \<open>parses_urls\<close> it computes what the standards say\<close>
  "example_platform year =
     \<lparr>URL_new = simple_URL_new, toLowerCase = map ascii_lower, toUpperCase = map ascii_upper,
      currentYear = year\<rparr>"

section \<open>Output cleaning: \<^verbatim>\<open>saveToJson\<close>\<close>

text \<open>
  An \<^verbatim>\<open>Event\<close> is an object with six string properties. At run time a property can
  be missing (the extractor builds a \<^verbatim>\<open>Partial<Event>\<close> and casts it), so each field is
  an option.
\<close>

record Event =
  website :: "js_string option"
  venue :: "js_string option"
  price :: "js_string option"
  event :: "js_string option"
  date :: "js_string option"
  ticketLink :: "js_string option"

definition cleanedData :: "Event list \<Rightarrow> Event list" where
  \<comment> \<open>the \<^verbatim>\<open>data.filter(...)\<close> of \<^verbatim>\<open>saveToJson\<close>\<close>
  "cleanedData data =
     filter (\<lambda>ev. truthy (js_and (js_and (js_and (js_and (js_and
               (website ev) (venue ev)) (price ev)) (event ev)) (date ev)) (ticketLink ev)))
       data"

definition saveToJson ::
  "(Event list \<Rightarrow> js_string) \<Rightarrow> Event list \<Rightarrow> js_string \<Rightarrow> (js_string \<rightharpoonup> js_string)
     \<Rightarrow> (js_string \<rightharpoonup> js_string)"
where
  \<comment> \<open>\<open>stringify\<close> stands for \<^verbatim>\<open>JSON.stringify(_, null, 2)\<close>; the file system is a map from
     file names to contents, and \<^verbatim>\<open>fs.writeFileSync\<close> overwrites one entry\<close>
  "saveToJson stringify data filename files = files(filename \<mapsto> stringify (cleanedData data))"

definition populated :: "Event \<Rightarrow> bool" where
  \<comment> \<open>all six required fields are present and non-empty\<close>
  "populated ev =
     list_all (\<lambda>f. f \<noteq> None \<and> f \<noteq> Some [])
       [website ev, venue ev, price ev, event ev, date ev, ticketLink ev]"

section \<open>Selector resolution: \<^verbatim>\<open>getSelectorsFromLLM\<close>\<close>

record selectors =
  venueSelector :: js_string
  priceSelector :: js_string
  eventSelector :: js_string
  dateSelector :: js_string
  ticketLinkSelector :: js_string
  subtitleSelector :: "js_string option"
  pretitleSelector :: "js_string option"

definition llm_prompt :: "js_string \<Rightarrow> js_string" where
  "llm_prompt html =
     str ''Given the HTML snippet, provide CSS selectors for venue, price, event, date, ticketLink, subtitle, and pretitle elements for each event listed:''
       @ [0x000A, 0x000A] @ html"

definition getSelectorsFromLLM ::
  "(js_string \<Rightarrow> selectors result) \<Rightarrow> js_string \<Rightarrow> selectors \<Rightarrow> selectors"
where
  \<comment> \<open>\<open>generateObject\<close> stands for the awaited call of the structured-completion service
     with the fixed model and schema: \<open>Inr\<close> carries \<^verbatim>\<open>object.selectors\<close> of a resolved,
     schema-valid response, \<open>Inl\<close> is a rejection, caught by the \<^verbatim>\<open>catch\<close> block\<close>
  "getSelectorsFromLLM generateObject html defaultSelectors =
     (case generateObject (llm_prompt html) of
        Inr object_selectors \<Rightarrow> object_selectors
      | Inl _ \<Rightarrow> defaultSelectors)"

section \<open>URL canonicalisation: \<^verbatim>\<open>removeSearchParams\<close>\<close>

definition strip_trailing_spaces :: "url \<Rightarrow> url" where
  \<comment> \<open>URL Standard: potentially strip trailing spaces from an opaque path\<close>
  "strip_trailing_spaces u =
     (case path u of
        Segments _ \<Rightarrow> u
      | Opaque p \<Rightarrow>
          if fragment u \<noteq> None then u
          else if query u \<noteq> None then u
          else u\<lparr>path := Opaque (rev (dropWhile (\<lambda>c. c = 0x0020) (rev p)))\<rparr>)"

definition set_search_empty :: "url \<Rightarrow> url" where
  \<comment> \<open>\<^verbatim>\<open>urlObject.search = ""\<close>\<close>
  "set_search_empty u = strip_trailing_spaces (u\<lparr>query := None\<rparr>)"

definition serialize_path :: "url_path \<Rightarrow> js_string" where
  "serialize_path p =
     (case p of Opaque s \<Rightarrow> s | Segments segs \<Rightarrow> concat (map (\<lambda>s. ch CHR ''/'' # s) segs))"

definition url_toString :: "url \<Rightarrow> js_string" where
  \<comment> \<open>the URL serializer (\<^verbatim>\<open>urlObject.toString()\<close>, the \<^verbatim>\<open>href\<close>)\<close>
  "url_toString u =
     scheme u @ str '':''
     @ (case host u of
          Some h \<Rightarrow>
            str ''//''
            @ (if username u \<noteq> [] \<or> password u \<noteq> []
               then username u @ (if password u \<noteq> [] then str '':'' @ password u else [])
                    @ str ''@''
               else [])
            @ h
            @ (case port u of None \<Rightarrow> [] | Some n \<Rightarrow> str '':'' @ decimal n)
        | None \<Rightarrow>
            (case path u of
               Segments (s1 # s2 # _) \<Rightarrow> if s1 = [] then str ''/.'' else []
             | _ \<Rightarrow> []))
     @ serialize_path (path u)
     @ (case query u of None \<Rightarrow> [] | Some q \<Rightarrow> str ''?'' @ q)
     @ (case fragment u of None \<Rightarrow> [] | Some f \<Rightarrow> str ''#'' @ f)"

definition removeSearchParams :: "platform \<Rightarrow> js_string \<Rightarrow> js_string" where
  "removeSearchParams pf u =
     (case URL_new pf u of
        None \<Rightarrow> u
      | Some urlObject \<Rightarrow> url_toString (set_search_empty urlObject))"

section \<open>Price normalisation (the \<^verbatim>\<open>price\<close> branch of \<^verbatim>\<open>scrapeEvents\<close>)\<close>

definition match_fraction :: "js_string \<Rightarrow> js_string" where
  \<comment> \<open>the optional group \<^verbatim>\<open>(\.\d{2})?\<close> at the start of \<open>s\<close>: its text, or empty\<close>
  "match_fraction s =
     (case s of
        p # a # b # _ \<Rightarrow>
          if p = ch CHR ''.'' \<and> is_digit a \<and> is_digit b then [p, a, b] else []
      | _ \<Rightarrow> [])"

definition match_price_at :: "js_string \<Rightarrow> js_string option" where
  \<comment> \<open>\<^verbatim>\<open>\$\d+(\.\d{2})?\<close> matched at the start of \<open>s\<close>, greedily\<close>
  "match_price_at s =
     (case s of
        [] \<Rightarrow> None
      | c # rest \<Rightarrow>
          if c = ch CHR ''$'' \<and> takeWhile is_digit rest \<noteq> []
          then Some (c # takeWhile is_digit rest @ match_fraction (dropWhile is_digit rest))
          else None)"

fun match_price :: "js_string \<Rightarrow> js_string option" where
  \<comment> \<open>\<^verbatim>\<open>text.match(/\$\d+(\.\d{2})?/)?.[0]\<close>: the match at the leftmost position that has one\<close>
  "match_price [] = None"
| "match_price (c # cs) =
     (case match_price_at (c # cs) of Some m \<Rightarrow> Some m | None \<Rightarrow> match_price cs)"

definition normalizePrice :: "platform \<Rightarrow> js_string \<Rightarrow> js_string" where
  \<comment> \<open>the value assigned to \<^verbatim>\<open>eventData.price\<close>\<close>
  "normalizePrice pf text =
     (if str_includes (toLowerCase pf text) (str ''sold out'') then str ''SOLD OUT''
      else if truthy (match_price text) then the (match_price text) else trim text)"

definition is_price :: "js_string \<Rightarrow> bool" where
  \<comment> \<open>the strings of the form \<^verbatim>\<open>$\<close>, one or more digits, and optionally a dot and exactly
     two digits\<close>
  "is_price m =
     (case m of
        [] \<Rightarrow> False
      | c # r \<Rightarrow>
          c = ch CHR ''$'' \<and> takeWhile is_digit r \<noteq> []
          \<and> (case dropWhile is_digit r of
                [] \<Rightarrow> True
              | [p, a, b] \<Rightarrow> p = ch CHR ''.'' \<and> is_digit a \<and> is_digit b
              | _ \<Rightarrow> False))"

section \<open>Date normalisation: \<^verbatim>\<open>formatDate\<close>\<close>

subsection \<open>String splitting and array access\<close>

fun split_on :: "code_unit \<Rightarrow> js_string \<Rightarrow> js_string list" where
  \<comment> \<open>\<^verbatim>\<open>s.split(c)\<close> for a one-character separator; the result is never empty\<close>
  "split_on c [] = [[]]"
| "split_on c (x # xs) =
     (if x = c then [] # split_on c xs
      else (case split_on c xs of [] \<Rightarrow> [[x]] | w # ws \<Rightarrow> (x # w) # ws))"

function split_runs :: "(code_unit \<Rightarrow> bool) \<Rightarrow> js_string \<Rightarrow> js_string list" where
  \<comment> \<open>\<^verbatim>\<open>s.split(/[...]+/)\<close>: the pieces between the maximal runs of separator characters\<close>
  "split_runs p [] = [[]]"
| "split_runs p (x # xs) =
     (if p x then [] # split_runs p (dropWhile p xs)
      else (case split_runs p xs of [] \<Rightarrow> [[x]] | w # ws \<Rightarrow> (x # w) # ws))"
  by pat_completeness auto
termination
  by (relation "measure (\<lambda>(p, s). length s)") (auto simp: le_imp_less_Suc length_dropWhile_le)

definition is_separator :: "code_unit \<Rightarrow> bool" where
  \<comment> \<open>the class \<^verbatim>\<open>[,\s]\<close>\<close>
  "is_separator c = (c = ch CHR '','' \<or> is_space c)"

definition nth_opt :: "'a list \<Rightarrow> nat \<Rightarrow> 'a option" where
  \<comment> \<open>\<^verbatim>\<open>xs[i]\<close>, \<^verbatim>\<open>undefined\<close> beyond the end\<close>
  "nth_opt xs i = (if i < length xs then Some (xs ! i) else None)"

definition array_includes :: "js_string list \<Rightarrow> js_string option \<Rightarrow> bool" where
  \<comment> \<open>\<^verbatim>\<open>xs.includes(v)\<close> for an array of strings\<close>
  "array_includes xs v = (case v of None \<Rightarrow> False | Some s \<Rightarrow> s \<in> set xs)"

fun findIndex :: "('a \<Rightarrow> bool) \<Rightarrow> 'a list \<Rightarrow> int" where
  "findIndex P [] = - 1"
| "findIndex P (x # xs) =
     (if P x then 0 else (let i = findIndex P xs in if i = - 1 then - 1 else i + 1))"

fun map_result :: "('a \<Rightarrow> 'b result) \<Rightarrow> 'a list \<Rightarrow> 'b list result" where
  \<comment> \<open>\<^verbatim>\<open>xs.map(f)\<close> for a callback that can throw: the first exception ends the map\<close>
  "map_result f [] = Inr []"
| "map_result f (x # xs) =
     (case f x of
        Inl e \<Rightarrow> Inl e
      | Inr y \<Rightarrow> (case map_result f xs of Inl e \<Rightarrow> Inl e | Inr ys \<Rightarrow> Inr (y # ys)))"

definition digit_value :: "code_unit \<Rightarrow> nat" where
  "digit_value c = unat c - 48"

definition parseInt :: "js_string option \<Rightarrow> int option" where
  \<comment> \<open>\<^verbatim>\<open>parseInt\<close> as the program calls it: the argument is \<^verbatim>\<open>undefined\<close> or a string from
     which \<^verbatim>\<open>replace(/\D/g, "")\<close> has removed every non-digit. The result is the decimal
     value of the leading digits, NaN (\<open>None\<close>) when there is none\<close>
  "parseInt v =
     (case v of
        None \<Rightarrow> None
      | Some s \<Rightarrow>
          (let ds = takeWhile is_digit s
           in if ds = [] then None
              else Some (int (foldl (\<lambda>a c. 10 * a + digit_value c) 0 ds))))"

subsection \<open>The \<^verbatim>\<open>Date\<close> object\<close>

text \<open>
  A \<^verbatim>\<open>Date\<close> holds a time value: an integral number of milliseconds since the epoch, or
  NaN (\<open>None\<close>). The functions follow the ECMAScript specification of Date objects. The
  host's time zone is taken to be UTC, so local time is the time value itself. Numbers
  are integers here: every argument comes from \<^verbatim>\<open>parseInt\<close> or \<^verbatim>\<open>findIndex\<close>, the products
  inside the time range are exact in double precision, and a value too large for exact
  representation is far outside the range that \<open>TimeClip\<close> accepts.
\<close>

definition msPerDay :: int where
  "msPerDay = 86400000"

definition Day :: "int \<Rightarrow> int" where
  "Day t = t div msPerDay"

definition DaysInYear :: "int \<Rightarrow> int" where
  "DaysInYear y =
     (if y mod 4 \<noteq> 0 then 365 else if y mod 100 \<noteq> 0 then 366
      else if y mod 400 \<noteq> 0 then 365 else 366)"

definition DayFromYear :: "int \<Rightarrow> int" where
  "DayFromYear y =
     365 * (y - 1970) + (y - 1969) div 4 - (y - 1901) div 100 + (y - 1601) div 400"

function year_from :: "int \<Rightarrow> int \<Rightarrow> int" where
  \<comment> \<open>the largest year not after \<open>y\<close> that starts on or before day \<open>d\<close>\<close>
  "year_from d y = (if DayFromYear y \<le> d then y else year_from d (y - 1))"
  by pat_completeness auto
termination
  by (relation "measure (\<lambda>(d, y). nat (DayFromYear y - d))") (auto simp: DayFromYear_def)

declare year_from.simps [simp del]

definition YearFromTime :: "int \<Rightarrow> int" where
  \<comment> \<open>the largest \<open>y\<close> with \<open>DayFromYear y \<le> Day t\<close>; the search starts at a year that is
     not before it (a year has at least 365 and at most 366 days)\<close>
  "YearFromTime t =
     year_from (Day t) (1970 + (if 0 \<le> Day t then Day t div 365 else Day t div 366))"

definition InLeapYear :: "int \<Rightarrow> int" where
  "InLeapYear t = (if DaysInYear (YearFromTime t) = 366 then 1 else 0)"

definition DayWithinYear :: "int \<Rightarrow> int" where
  "DayWithinYear t = Day t - DayFromYear (YearFromTime t)"

definition MonthFromTime :: "int \<Rightarrow> int" where
  "MonthFromTime t =
     (let d = DayWithinYear t; l = InLeapYear t
      in if d < 31 then 0 else if d < 59 + l then 1 else if d < 90 + l then 2
         else if d < 120 + l then 3 else if d < 151 + l then 4 else if d < 181 + l then 5
         else if d < 212 + l then 6 else if d < 243 + l then 7 else if d < 273 + l then 8
         else if d < 304 + l then 9 else if d < 334 + l then 10 else 11)"

definition DateFromTime :: "int \<Rightarrow> int" where
  "DateFromTime t =
     (let d = DayWithinYear t; l = InLeapYear t; m = MonthFromTime t
      in if m = 0 then d + 1 else if m = 1 then d - 30 else if m = 2 then d - 58 - l
         else if m = 3 then d - 89 - l else if m = 4 then d - 119 - l
         else if m = 5 then d - 150 - l else if m = 6 then d - 180 - l
         else if m = 7 then d - 211 - l else if m = 8 then d - 242 - l
         else if m = 9 then d - 272 - l else if m = 10 then d - 303 - l else d - 333 - l)"

definition WeekDay :: "int \<Rightarrow> int" where
  "WeekDay t = (Day t + 4) mod 7"

definition month_start :: "int \<Rightarrow> int \<Rightarrow> int" where
  \<comment> \<open>the day within year \<open>y\<close> on which month \<open>mn\<close> (0 to 11) starts\<close>
  "month_start y mn =
     [0, 31, 59, 90, 120, 151, 181, 212, 243, 273, 304, 334] ! nat mn
     + (if 2 \<le> mn \<and> DaysInYear y = 366 then 1 else 0)"

definition MakeDay :: "int \<Rightarrow> int \<Rightarrow> int \<Rightarrow> int" where
  \<comment> \<open>the day number of the first of the month, plus \<open>dt - 1\<close>\<close>
  "MakeDay yr m dt =
     (let ym = yr + m div 12; mn = m mod 12
      in DayFromYear ym + month_start ym mn + dt - 1)"

definition TimeClip :: "int \<Rightarrow> int option" where
  "TimeClip t = (if \<bar>t\<bar> > 8640000000000000 then None else Some t)"

definition Date_new :: "int option \<Rightarrow> int \<Rightarrow> int option \<Rightarrow> int option" where
  \<comment> \<open>\<^verbatim>\<open>new Date(y, m, dt)\<close>: a year from 0 to 99 means 1900 + y; the time within the day is 0\<close>
  "Date_new y m dt =
     (case (y, dt) of
        (Some yi, Some di) \<Rightarrow>
          TimeClip (MakeDay (if 0 \<le> yi \<and> yi \<le> 99 then 1900 + yi else yi) m di * msPerDay)
      | _ \<Rightarrow> None)"

definition getDay :: "int option \<Rightarrow> int option" where
  "getDay dateObj = map_option WeekDay dateObj"

definition getDate :: "int option \<Rightarrow> int option" where
  "getDate dateObj = map_option DateFromTime dateObj"

definition getFullYear :: "int option \<Rightarrow> int option" where
  "getFullYear dateObj = map_option YearFromTime dateObj"

subsection \<open>\<^verbatim>\<open>formatDate\<close> and its helper \<^verbatim>\<open>parseSingleDate\<close>\<close>

definition months :: "js_string list" where
  "months = map str [''Jan'', ''Feb'', ''Mar'', ''Apr'', ''May'', ''Jun'',
                     ''Jul'', ''Aug'', ''Sep'', ''Oct'', ''Nov'', ''Dec'']"

definition days :: "js_string list" where
  "days = map str [''Sun'', ''Mon'', ''Tue'', ''Wed'', ''Thu'', ''Fri'', ''Sat'']"

definition months_findIndex :: "platform \<Rightarrow> js_string \<Rightarrow> int" where
  \<comment> \<open>\<^verbatim>\<open>months.findIndex((m) => m.toLowerCase() === month.toLowerCase().slice(0, 3))\<close>\<close>
  "months_findIndex pf month =
     findIndex (\<lambda>m. toLowerCase pf m = take 3 (toLowerCase pf month)) months"

definition format_fields ::
  "platform \<Rightarrow> js_string \<Rightarrow> js_string option \<Rightarrow> js_string option \<Rightarrow> js_string option
     \<Rightarrow> js_string result"
where
  \<comment> \<open>\<^verbatim>\<open>parseSingleDate\<close> after the destructuring of \<^verbatim>\<open>parts\<close> into month, day and year.
     \<^verbatim>\<open>month.toLowerCase()\<close> throws a TypeError when \<^verbatim>\<open>month\<close> is undefined\<close>
  "format_fields pf dateStr month day0 year0 =
     (let year1 = (if truthy year0 then the year0
                   else Number_toString (Some (currentYear pf)));
          day1 = map_option (filter is_digit) day0;
          year2 = filter is_digit year1
      in case month of
           None \<Rightarrow> Inl TypeError
         | Some mo \<Rightarrow>
             (let monthIndex = months_findIndex pf mo
              in if monthIndex = - 1 then Inr dateStr
                 else
                   (let dateObj = Date_new (parseInt (Some year2)) monthIndex (parseInt day1)
                    in Inr ((case getDay dateObj of
                               None \<Rightarrow> str ''undefined''
                             | Some wd \<Rightarrow> days ! nat wd)
                            @ str '', '' @ months ! nat monthIndex @ str '' ''
                            @ Number_toString (getDate dateObj) @ str '', ''
                            @ Number_toString (getFullYear dateObj)))))"

definition parts_of :: "js_string \<Rightarrow> js_string list" where
  \<comment> \<open>\<^verbatim>\<open>date.split(/[,\s]+/).filter(Boolean)\<close>\<close>
  "parts_of dateStr = filter (\<lambda>p. p \<noteq> []) (split_runs is_separator dateStr)"

definition parseSingleDate :: "platform \<Rightarrow> js_string \<Rightarrow> js_string result" where
  \<comment> \<open>\<^verbatim>\<open>parts[0].slice(0, 3)\<close> throws a TypeError when \<^verbatim>\<open>parts\<close> is empty\<close>
  "parseSingleDate pf dateStr =
     (let parts = parts_of dateStr
      in if array_includes days (nth_opt parts 0)
         then format_fields pf dateStr (nth_opt parts 1) (nth_opt parts 2) (nth_opt parts 3)
         else (case nth_opt parts 0 of
                 None \<Rightarrow> Inl TypeError
               | Some p0 \<Rightarrow>
                   if take 3 p0 \<in> set months
                   then format_fields pf dateStr (nth_opt parts 0) (nth_opt parts 1)
                          (nth_opt parts 2)
                   else Inr dateStr))"

definition pieces :: "js_string \<Rightarrow> js_string list" where
  \<comment> \<open>\<^verbatim>\<open>dateString.split("-").map((d) => d.trim())\<close>\<close>
  "pieces dateString = map trim (split_on (ch CHR ''-'') dateString)"

definition formatDate :: "platform \<Rightarrow> js_string \<Rightarrow> js_string result" where
  \<comment> \<open>\<^verbatim>\<open>dateParts[0]\<close> always exists, because a split has at least one piece\<close>
  "formatDate pf dateString =
     (if trim dateString = [] \<or> dateString = str ''mockValue'' then Inr dateString
      else
        (case map_result (parseSingleDate pf) (pieces dateString) of
           Inl e \<Rightarrow> Inl e
         | Inr dateParts \<Rightarrow>
             if length dateParts = 2 then Inr (join (str '' - '') dateParts)
             else Inr (case dateParts of [] \<Rightarrow> [] | first # _ \<Rightarrow> first)))"

definition unrecognized :: "platform \<Rightarrow> js_string \<Rightarrow> bool" where
  \<comment> \<open>the two ways in which \<^verbatim>\<open>parseSingleDate\<close> gives a date up, each with a warning: the
     first part is neither a weekday abbreviation nor starts with a month abbreviation,
     or the part in the place of the month resolves to no month\<close>
  "unrecognized pf d =
     (case parts_of d of
        [] \<Rightarrow> False
      | p0 # ps \<Rightarrow>
          if p0 \<in> set days
          then (case ps of [] \<Rightarrow> False | mo # _ \<Rightarrow> months_findIndex pf mo = - 1)
          else take 3 p0 \<notin> set months \<or> months_findIndex pf p0 = - 1)"

definition has_first_part :: "js_string \<Rightarrow> bool" where
  \<comment> \<open>the piece has a part, and more than a weekday abbreviation alone\<close>
  "has_first_part d =
     (case parts_of d of [] \<Rightarrow> False | [w] \<Rightarrow> w \<notin> set days | _ \<Rightarrow> True)"

section \<open>Field extraction and event assembly: \<^verbatim>\<open>scrapeEvents\<close>\<close>

text \<open>
  An event block is an element handle. What the program reads from it is, for a
  selector, the first matching sub-element: its text content and its \<^verbatim>\<open>href\<close> property
  (undefined when the sub-element is not a link). \<open>None\<close> for a selector means that
  \<^verbatim>\<open>$eval\<close> rejects, as it does when the selector matches nothing in the block.
\<close>

record node =
  textContent :: "js_string option"
  href :: "js_string option"

type_synonym element = "js_string \<Rightarrow> node option"

definition eval_text :: "element \<Rightarrow> js_string \<Rightarrow> js_string" where
  \<comment> \<open>\<^verbatim>\<open>element.$eval(selector, el => el.textContent?.trim() || "").catch(() => "")\<close>\<close>
  "eval_text el selector =
     (case el selector of
        None \<Rightarrow> []
      | Some n \<Rightarrow> (case textContent n of None \<Rightarrow> [] | Some t \<Rightarrow> if trim t \<noteq> [] then trim t else []))"

definition eval_href :: "element \<Rightarrow> js_string \<Rightarrow> js_string option" where
  \<comment> \<open>\<^verbatim>\<open>element.$eval(selector, el => el.href).catch(() => "")\<close>\<close>
  "eval_href el selector = (case el selector of None \<Rightarrow> Some [] | Some n \<Rightarrow> href n)"

definition removeSearchParams_arg :: "platform \<Rightarrow> js_string option \<Rightarrow> js_string option" where
  \<comment> \<open>\<^verbatim>\<open>removeSearchParams\<close> on a run-time argument that can be undefined: the constructor
     converts its argument to a string, and the \<^verbatim>\<open>catch\<close> block returns the argument itself\<close>
  "removeSearchParams_arg pf v =
     (case v of
        Some s \<Rightarrow> Some (removeSearchParams pf s)
      | None \<Rightarrow>
          (case URL_new pf (str ''undefined'') of
             None \<Rightarrow> None
           | Some urlObject \<Rightarrow> Some (url_toString (set_search_empty urlObject))))"

definition entries :: "selectors \<Rightarrow> (string \<times> js_string option) list" where
  \<comment> \<open>\<^verbatim>\<open>Object.entries(selectors)\<close>, in the order of the properties; an optional property
     that is absent is skipped by the loop like one that is undefined\<close>
  "entries s =
     [(''venue'', Some (venueSelector s)), (''price'', Some (priceSelector s)),
      (''event'', Some (eventSelector s)), (''date'', Some (dateSelector s)),
      (''ticketLink'', Some (ticketLinkSelector s)), (''subtitle'', subtitleSelector s),
      (''pretitle'', pretitleSelector s)]"

record loop_state =
  eventData :: Event
  presenter :: js_string
  mainArtist :: js_string
  supportingActs :: js_string

definition set_field :: "string \<Rightarrow> js_string \<Rightarrow> Event \<Rightarrow> Event" where
  \<comment> \<open>\<^verbatim>\<open>eventData[key as keyof Event] = text\<close>\<close>
  "set_field key text ev =
     (if key = ''website'' then ev\<lparr>website := Some text\<rparr>
      else if key = ''venue'' then ev\<lparr>venue := Some text\<rparr>
      else if key = ''price'' then ev\<lparr>price := Some text\<rparr>
      else if key = ''event'' then ev\<lparr>event := Some text\<rparr>
      else if key = ''date'' then ev\<lparr>date := Some text\<rparr>
      else if key = ''ticketLink'' then ev\<lparr>ticketLink := Some text\<rparr>
      else ev)"

definition field_step ::
  "platform \<Rightarrow> element \<Rightarrow> js_string \<Rightarrow> string \<times> js_string option
     \<Rightarrow> loop_state \<Rightarrow> loop_state result"
where
  \<comment> \<open>one iteration of the loop over the selectors; only \<^verbatim>\<open>formatDate\<close> can throw\<close>
  "field_step pf el venueLabel entry st =
     (let key = fst entry; selector = snd entry
      in if \<not> truthy selector then Inr st
         else
           (let text = eval_text el (the selector)
            in if key = ''price''
               then Inr (st\<lparr>eventData := (eventData st)\<lparr>price := Some (normalizePrice pf text)\<rparr>\<rparr>)
               else if key = ''ticketLink''
               then Inr (st\<lparr>eventData := (eventData st)
                          \<lparr>ticketLink :=
                             removeSearchParams_arg pf (eval_href el (the selector))\<rparr>\<rparr>)
               else if key = ''date''
               then (case formatDate pf text of
                       Inl e \<Rightarrow> Inl e
                     | Inr d \<Rightarrow> Inr (st\<lparr>eventData := (eventData st)\<lparr>date := Some d\<rparr>\<rparr>))
               else if key = ''event'' then Inr (st\<lparr>mainArtist := text\<rparr>)
               else if key = ''venue'' \<and> text = []
               then Inr (st\<lparr>eventData := (eventData st)\<lparr>venue := Some venueLabel\<rparr>\<rparr>)
               else if key = ''pretitle'' then Inr (st\<lparr>presenter := text\<rparr>)
               else if key = ''subtitle'' then Inr (st\<lparr>supportingActs := text\<rparr>)
               else if key \<noteq> ''subtitle'' \<and> key \<noteq> ''pretitle''
               then Inr (st\<lparr>eventData := set_field key text (eventData st)\<rparr>)
               else Inr st))"

fun fold_result :: "('a \<Rightarrow> 's \<Rightarrow> 's result) \<Rightarrow> 'a list \<Rightarrow> 's \<Rightarrow> 's result" where
  \<comment> \<open>a \<^verbatim>\<open>for\<close> loop whose body can throw\<close>
  "fold_result f [] st = Inr st"
| "fold_result f (x # xs) st =
     (case f x st of Inl e \<Rightarrow> Inl e | Inr st' \<Rightarrow> fold_result f xs st')"

definition scrape_element ::
  "platform \<Rightarrow> selectors \<Rightarrow> js_string \<Rightarrow> js_string \<Rightarrow> element \<Rightarrow> Event result"
where
  \<comment> \<open>the callback that \<^verbatim>\<open>scrapeEvents\<close> maps over the event blocks\<close>
  "scrape_element pf sels websiteKey venueLabel el =
     (case fold_result (field_step pf el venueLabel) (entries sels)
             \<lparr>eventData = \<lparr>website = Some websiteKey, venue = None, price = None, event = None,
                            date = None, ticketLink = None\<rparr>,
              presenter = [], mainArtist = [], supportingActs = []\<rparr> of
        Inl e \<Rightarrow> Inl e
      | Inr st \<Rightarrow>
          (let eventTitle =
                 (if presenter st \<noteq> [] then [toUpperCase pf (presenter st)] else [])
                 @ (if mainArtist st \<noteq> [] then [mainArtist st] else [])
                 @ (if supportingActs st \<noteq> [] then [supportingActs st] else [])
           in Inr ((eventData st)\<lparr>event := Some (join (str '' '') eventTitle)\<rparr>)))"

definition scrapeEvents ::
  "platform \<Rightarrow> (js_string \<Rightarrow> element list) \<Rightarrow> selectors \<Rightarrow> js_string \<Rightarrow> js_string
     \<Rightarrow> js_string \<Rightarrow> Event list result"
where
  \<comment> \<open>\<open>page\<close> gives the elements that \<^verbatim>\<open>page.$$\<close> finds for a selector; \<^verbatim>\<open>Promise.all\<close> keeps
     the order of the blocks and rejects when one callback rejects\<close>
  "scrapeEvents pf page sels eventListSelector websiteKey venueLabel =
     map_result (scrape_element pf sels websiteKey venueLabel) (page eventListSelector)"

definition captured :: "element \<Rightarrow> js_string option \<Rightarrow> js_string" where
  \<comment> \<open>the text the loop reads for a selector: empty when the selector is skipped\<close>
  "captured el selector = (if truthy selector then eval_text el (the selector) else [])"

definition title_segments :: "platform \<Rightarrow> selectors \<Rightarrow> element \<Rightarrow> js_string list" where
  \<comment> \<open>the segments of the title, in order: the presenter in upper case, the main artist
     and the supporting acts, each left out when the text read for it is empty\<close>
  "title_segments pf sels el =
     (if captured el (pretitleSelector sels) \<noteq> []
      then [toUpperCase pf (captured el (pretitleSelector sels))] else [])
     @ (if captured el (Some (eventSelector sels)) \<noteq> []
        then [captured el (Some (eventSelector sels))] else [])
     @ (if captured el (subtitleSelector sels) \<noteq> []
        then [captured el (subtitleSelector sels)] else [])"

definition assembled ::
  "platform \<Rightarrow> selectors \<Rightarrow> js_string \<Rightarrow> js_string \<Rightarrow> element \<Rightarrow> js_string option \<Rightarrow> Event"
where
  \<comment> \<open>the record that the loop and the title assembly build from a block, given the
     value \<open>d\<close> of its date field\<close>
  "assembled pf sels websiteKey label el d =
     \<lparr>website = Some websiteKey,
      venue = (if venueSelector sels = [] then None
               else Some (if eval_text el (venueSelector sels) = [] then label
                          else eval_text el (venueSelector sels))),
      price = (if priceSelector sels = [] then None
               else Some (normalizePrice pf (eval_text el (priceSelector sels)))),
      event = Some (join (str '' '') (title_segments pf sels el)),
      date = d,
      ticketLink = (if ticketLinkSelector sels = [] then None
                    else removeSearchParams_arg pf (eval_href el (ticketLinkSelector sels)))\<rparr>"

subsection \<open>The mocks of the repository's tests\<close>

definition mockSelectors :: selectors where
  "mockSelectors =
     \<lparr>venueSelector = str ''.venue'', priceSelector = str ''.price'',
      eventSelector = str ''.event'', dateSelector = str ''.date'',
      ticketLinkSelector = str ''.ticket'', subtitleSelector = None,
      pretitleSelector = None\<rparr>"

definition mock_element :: element where
  \<comment> \<open>the mocked \<^verbatim>\<open>$eval\<close> resolves to a fixed string for every callback\<close>
  "mock_element selector =
     (if selector = venueSelector mockSelectors
      then Some \<lparr>textContent = Some (str ''Test Venue''), href = Some (str ''Test Venue'')\<rparr>
      else if selector = dateSelector mockSelectors
      then Some \<lparr>textContent = Some (str ''Jul 4, 2024''), href = Some (str ''Jul 4, 2024'')\<rparr>
      else Some \<lparr>textContent = Some (str ''mockValue''), href = Some (str ''mockValue'')\<rparr>)"

definition open_range_block :: element where
  \<comment> \<open>a block in which the price selector of the mocks matches nothing and the text of
     the date is an open range\<close>
  "open_range_block selector =
     (if selector = priceSelector mockSelectors then None
      else if selector = dateSelector mockSelectors
      then Some \<lparr>textContent = Some (str ''Jul 4 -''), href = None\<rparr>
      else Some \<lparr>textContent = Some (str ''Doors 7pm''), href = None\<rparr>)"

subsection \<open>Dates that \<^verbatim>\<open>parseSingleDate\<close> recognizes\<close>

definition DaysInMonth :: "int \<Rightarrow> int \<Rightarrow> int" where
  \<comment> \<open>the length of month \<open>mi\<close> (0 to 11) of year \<open>y\<close> in the Gregorian calendar\<close>
  "DaysInMonth y mi =
     (if mi = 1 then (if DaysInYear y = 366 then 29 else 28)
      else if mi \<in> set [3, 5, 8, 10] then 30 else 31)"

definition recognized_date :: "platform \<Rightarrow> js_string \<Rightarrow> bool" where
  \<comment> \<open>\<open>D\<close> is one date, not a range, that passes the test of \<^verbatim>\<open>parseSingleDate\<close> on its first
     part as the program makes it (a weekday abbreviation, or three letters that are a
     month abbreviation as the program spells it); read as \<^verbatim>\<open>parseSingleDate\<close> reads it (an
     optional weekday, then month, day and an optional year that defaults to the current
     year) its month resolves, its day exists in that month of that year, and the date
     is within the 100,000,000 days after the epoch that a \<^verbatim>\<open>Date\<close> can hold\<close>
  "recognized_date pf D =
     (ch CHR ''-'' \<notin> set D \<and>
      (let parts = parts_of (trim D);
           fields = (if array_includes days (nth_opt parts 0) then tl parts else parts)
       in case fields of
            mo # dy # rest \<Rightarrow>
              (array_includes days (nth_opt parts 0) \<or> take 3 mo \<in> set months) \<and>
              (let mi = months_findIndex pf mo
               in mi \<noteq> - 1 \<and>
                  (case (parseInt (Some (filter is_digit dy)),
                         parseInt (Some (filter is_digit
                            (case rest of
                               [] \<Rightarrow> Number_toString (Some (currentYear pf))
                             | y # _ \<Rightarrow> y)))) of
                     (Some dd, Some yy) \<Rightarrow>
                       (let yr = (if yy \<le> 99 then 1900 + yy else yy)
                        in 1 \<le> dd \<and> dd \<le> DaysInMonth yr mi \<and> MakeDay yr mi dd \<le> 100000000)
                   | _ \<Rightarrow> False))
          | _ \<Rightarrow> False))"

definition canonical_date :: "int \<Rightarrow> int \<Rightarrow> int \<Rightarrow> int \<Rightarrow> js_string" where
  \<comment> \<open>the canonical form \<^verbatim>\<open>Weekday, Mon D, YYYY\<close> for a weekday number, a month index, a
     day of the month and a year\<close>
  "canonical_date wd mi dd yr =
     days ! nat wd @ str '', '' @ months ! nat mi @ str '' '' @ decimal (nat dd) @ str '', ''
     @ decimal (nat yr)"

section \<open>Properties\<close>

lemma truthy_js_and: "truthy (js_and a b) = (truthy a \<and> truthy b)"
  by (simp add: js_and_def)

lemma truthy_iff: "truthy v = (v \<noteq> None \<and> v \<noteq> Some [])"
  by (cases v) (simp_all add: truthy_def)

lemma cleanedData_filter_populated: "cleanedData data = filter populated data"
  unfolding cleanedData_def populated_def truthy_js_and
  by (simp add: truthy_iff)

subsection \<open>Output cleaning\<close>

text \<open>
  C9. For every sequence of records given to \<^verbatim>\<open>saveToJson\<close>, the array that is serialized
  and written under the file name is exactly the subsequence of the input records whose
  six required fields (website, venue, price, event, date, ticketLink) are all non-empty,
  in the original order: every fully populated record is kept, with its multiplicity,
  and every record with a missing or empty required field is dropped.
\<close>

theorem saveToJson_drops_partial_records:
  "saveToJson stringify data filename files filename = Some (stringify (cleanedData data))
   \<and> cleanedData data = filter populated data
   \<and> subseq (cleanedData data) data
   \<and> (\<forall>ev. populated ev \<longrightarrow> count_list (cleanedData data) ev = count_list data ev)
   \<and> (\<forall>ev. \<not> populated ev \<longrightarrow> ev \<notin> set (cleanedData data))"
proof -
  have written:
    "saveToJson stringify data filename files filename = Some (stringify (cleanedData data))"
    by (simp add: saveToJson_def)
  have kept: "count_list (filter populated data) ev = count_list data ev" if "populated ev" for ev
    using that by (induction data) auto
  show ?thesis
    using written kept by (simp add: cleanedData_filter_populated)
qed

theorem saveToJson_drops_partial_records_witness:
  "populated \<lparr>website = Some (str ''snspresents''), venue = Some (str ''Test Venue''),
       price = Some (str ''$20''), event = Some (str ''mockValue''),
       date = Some (str ''Thu, Jul 4, 2024''),
       ticketLink = Some (str ''https://example.com/'')\<rparr>
   \<and> \<not> populated \<lparr>website = Some (str ''eccles''), venue = Some (str ''Eccles Theater''),
       price = Some [], event = Some (str ''A''), date = Some (str ''Thu, Jul 4, 2024''),
       ticketLink = None\<rparr>
   \<and> cleanedData
        [\<lparr>website = Some (str ''eccles''), venue = Some (str ''Eccles Theater''),
           price = Some [], event = Some (str ''A''), date = Some (str ''Thu, Jul 4, 2024''),
           ticketLink = None\<rparr>,
         \<lparr>website = Some (str ''snspresents''), venue = Some (str ''Test Venue''),
           price = Some (str ''$20''), event = Some (str ''mockValue''),
           date = Some (str ''Thu, Jul 4, 2024''),
           ticketLink = Some (str ''https://example.com/'')\<rparr>]
       = [\<lparr>website = Some (str ''snspresents''), venue = Some (str ''Test Venue''),
           price = Some (str ''$20''), event = Some (str ''mockValue''),
           date = Some (str ''Thu, Jul 4, 2024''),
           ticketLink = Some (str ''https://example.com/'')\<rparr>]"
  using saveToJson_drops_partial_records
    [of "\<lambda>_. []"
        "[\<lparr>website = Some (str ''eccles''), venue = Some (str ''Eccles Theater''),
           price = Some [], event = Some (str ''A''), date = Some (str ''Thu, Jul 4, 2024''),
           ticketLink = None\<rparr>,
         \<lparr>website = Some (str ''snspresents''), venue = Some (str ''Test Venue''),
           price = Some (str ''$20''), event = Some (str ''mockValue''),
           date = Some (str ''Thu, Jul 4, 2024''),
           ticketLink = Some (str ''https://example.com/'')\<rparr>]"
        "str ''out.json''" Map.empty]
  by (simp add: populated_def str_def)

subsection \<open>Selector resolution\<close>

text \<open>
  C5. For every markup string and every default selector set, \<^verbatim>\<open>getSelectorsFromLLM\<close>
  returns the selector object of the structured-completion service as it is when the
  call succeeds (no merge with the defaults), and the supplied defaults unchanged when
  the call fails. The result is always one of the two: a selector set, never an error.
\<close>

theorem getSelectorsFromLLM_fallback:
  "(generateObject (llm_prompt html) = Inr s \<longrightarrow>
      getSelectorsFromLLM generateObject html defaultSelectors = s)
   \<and> (generateObject (llm_prompt html) = Inl e \<longrightarrow>
      getSelectorsFromLLM generateObject html defaultSelectors = defaultSelectors)
   \<and> (getSelectorsFromLLM generateObject html defaultSelectors = defaultSelectors
      \<or> generateObject (llm_prompt html) =
          Inr (getSelectorsFromLLM generateObject html defaultSelectors))"
  by (cases "generateObject (llm_prompt html)") (simp_all add: getSelectorsFromLLM_def)

theorem getSelectorsFromLLM_fallback_witness:
  "getSelectorsFromLLM
     (\<lambda>_. Inr \<lparr>venueSelector = str ''.new-venue'', priceSelector = str ''.new-price'',
               eventSelector = str ''.new-event'', dateSelector = str ''.new-date'',
               ticketLinkSelector = str ''.new-ticket'', subtitleSelector = None,
               pretitleSelector = None\<rparr>)
     (str ''<div>Mock HTML</div>'') mockSelectors
   = \<lparr>venueSelector = str ''.new-venue'', priceSelector = str ''.new-price'',
       eventSelector = str ''.new-event'', dateSelector = str ''.new-date'',
       ticketLinkSelector = str ''.new-ticket'', subtitleSelector = None,
       pretitleSelector = None\<rparr>
   \<and> getSelectorsFromLLM (\<lambda>_. Inl ServiceError) (str ''<div>Mock HTML</div>'') mockSelectors
   = mockSelectors"
  using
    getSelectorsFromLLM_fallback
      [of "\<lambda>_. Inr \<lparr>venueSelector = str ''.new-venue'', priceSelector = str ''.new-price'',
               eventSelector = str ''.new-event'', dateSelector = str ''.new-date'',
               ticketLinkSelector = str ''.new-ticket'', subtitleSelector = None,
               pretitleSelector = None\<rparr>"
          "str ''<div>Mock HTML</div>''"
          "\<lparr>venueSelector = str ''.new-venue'', priceSelector = str ''.new-price'',
               eventSelector = str ''.new-event'', dateSelector = str ''.new-date'',
               ticketLinkSelector = str ''.new-ticket'', subtitleSelector = None,
               pretitleSelector = None\<rparr>"]
    getSelectorsFromLLM_fallback
      [of "\<lambda>_. Inl ServiceError" "str ''<div>Mock HTML</div>''" _ _ ServiceError]
  by simp

subsection \<open>URL canonicalisation\<close>

lemma example_platform_parses_urls: "parses_urls (example_platform year)"
proof -
  have no_colon: "simple_URL_new s = None" if "ch CHR '':'' \<notin> set s" for s
  proof -
    have "\<not> prefix (str ''https://'') s"
    proof
      assume "prefix (str ''https://'') s"
      then have "set (str ''https://'') \<subseteq> set s" by (rule set_mono_prefix)
      then have "ch CHR '':'' \<in> set s" by (auto simp: str_def)
      with that show False by simp
    qed
    then show ?thesis by (simp add: simple_URL_new_def)
  qed
  have plain: "simple_URL_new (str ''https://'' @ h @ str ''?'' @ q)
      = Some \<lparr>scheme = str ''https'', username = [], password = [], host = Some h,
              port = None, path = Segments [[]], query = Some q, fragment = None\<rparr>"
    if h: "plain_domain h" and q: "plain_query q" for h q
  proof -
    have nq: "\<forall>c\<in>set h. c \<noteq> ch CHR ''?''"
      using h by (auto simp: plain_domain_def is_lower_letter_def ch_def)
    have pre: "prefix (str ''https://'') (str ''https://'' @ h @ str ''?'' @ q)" by simp
    have rest: "drop 8 (str ''https://'' @ h @ str ''?'' @ q) = h @ ch CHR ''?'' # q"
      by (simp add: str_def)
    have tw: "takeWhile (\<lambda>c. c \<noteq> ch CHR ''?'') (h @ ch CHR ''?'' # q) = h"
      using nq by (simp add: takeWhile_tail)
    have dw: "dropWhile (\<lambda>c. c \<noteq> ch CHR ''?'') (h @ ch CHR ''?'' # q) = ch CHR ''?'' # q"
      using nq by (simp add: dropWhile_append3)
    show ?thesis
      unfolding simple_URL_new_def rest using pre h q
      by (simp add: tw dw Let_def del: takeWhile_append dropWhile_append)
  qed
  show ?thesis
    unfolding parses_urls_def example_platform_def using no_colon plain by simp
qed

lemma plain_example:
  "plain_domain (str ''example.com'') \<and> plain_query (str ''param=value'')
   \<and> ch CHR '':'' \<notin> set (str ''not a url'')"
  by (simp add: plain_domain_def plain_query_def is_lower_letter_def str_def ch_def
      sublist_Cons_right prefix_Cons)

text \<open>
  C10. For every input string that the platform parses as an absolute URL,
  \<^verbatim>\<open>removeSearchParams\<close> returns the serialization of the parsed URL without its query: the
  scheme and a colon, the authority (two slashes, the credentials if any, the host and
  the port if any), the path and the fragment, where an opaque path loses its trailing
  spaces when there is no fragment. For every input that does not parse it returns the
  input unchanged; it never raises an error. On a platform that parses as the URL
  Standard says, \<^verbatim>\<open>https://\<close> with a plain domain and a query gives \<^verbatim>\<open>https://\<close>, the domain
  and a slash, and a string without a colon is returned as it is; in particular
  \<^verbatim>\<open>https://example.com?param=value\<close> gives \<^verbatim>\<open>https://example.com/\<close> and \<^verbatim>\<open>not a url\<close> gives
  \<^verbatim>\<open>not a url\<close>.
\<close>

theorem removeSearchParams_spec:
  "(URL_new pf u = None \<longrightarrow> removeSearchParams pf u = u)
   \<and> (URL_new pf u = Some v \<longrightarrow>
        removeSearchParams pf u =
          scheme v @ str '':''
          @ (case host v of
               Some h \<Rightarrow>
                 str ''//''
                 @ (if username v \<noteq> [] \<or> password v \<noteq> []
                    then username v
                         @ (if password v \<noteq> [] then str '':'' @ password v else [])
                         @ str ''@''
                    else [])
                 @ h
                 @ (case port v of None \<Rightarrow> [] | Some n \<Rightarrow> str '':'' @ decimal n)
             | None \<Rightarrow>
                 (case path v of
                    Segments (s1 # s2 # _) \<Rightarrow> if s1 = [] then str ''/.'' else []
                  | _ \<Rightarrow> []))
          @ (case path v of
               Segments segs \<Rightarrow> concat (map (\<lambda>s. ch CHR ''/'' # s) segs)
             | Opaque p \<Rightarrow>
                 if fragment v = None then rev (dropWhile (\<lambda>c. c = 0x0020) (rev p)) else p)
          @ (case fragment v of None \<Rightarrow> [] | Some f \<Rightarrow> str ''#'' @ f))
   \<and> (parses_urls pf \<longrightarrow>
        (ch CHR '':'' \<notin> set u \<longrightarrow> removeSearchParams pf u = u)
        \<and> (plain_domain h \<and> plain_query q \<longrightarrow>
             removeSearchParams pf (str ''https://'' @ h @ str ''?'' @ q)
               = str ''https://'' @ h @ str ''/'')
        \<and> removeSearchParams pf (str ''https://example.com?param=value'')
            = str ''https://example.com/''
        \<and> removeSearchParams pf (str ''not a url'') = str ''not a url'')"
proof -
  have failure: "URL_new pf u = None \<longrightarrow> removeSearchParams pf u = u"
    by (simp add: removeSearchParams_def)
  have success: "URL_new pf u = Some v \<longrightarrow>
        removeSearchParams pf u =
          scheme v @ str '':''
          @ (case host v of
               Some h \<Rightarrow>
                 str ''//''
                 @ (if username v \<noteq> [] \<or> password v \<noteq> []
                    then username v
                         @ (if password v \<noteq> [] then str '':'' @ password v else [])
                         @ str ''@''
                    else [])
                 @ h
                 @ (case port v of None \<Rightarrow> [] | Some n \<Rightarrow> str '':'' @ decimal n)
             | None \<Rightarrow>
                 (case path v of
                    Segments (s1 # s2 # _) \<Rightarrow> if s1 = [] then str ''/.'' else []
                  | _ \<Rightarrow> []))
          @ (case path v of
               Segments segs \<Rightarrow> concat (map (\<lambda>s. ch CHR ''/'' # s) segs)
             | Opaque p \<Rightarrow>
                 if fragment v = None then rev (dropWhile (\<lambda>c. c = 0x0020) (rev p)) else p)
          @ (case fragment v of None \<Rightarrow> [] | Some f \<Rightarrow> str ''#'' @ f)"
    by (cases "path v")
      (auto simp: removeSearchParams_def set_search_empty_def strip_trailing_spaces_def
        url_toString_def serialize_path_def split: option.splits)
  have no_colon: "removeSearchParams pf s = s" if "parses_urls pf" "ch CHR '':'' \<notin> set s" for s
    using that by (simp add: removeSearchParams_def parses_urls_def)
  have plain: "removeSearchParams pf (str ''https://'' @ h @ str ''?'' @ q)
      = str ''https://'' @ h @ str ''/''"
    if "parses_urls pf" "plain_domain h" "plain_query q" for h q
  proof -
    from that have
      "URL_new pf (str ''https://'' @ h @ str ''?'' @ q)
         = Some \<lparr>scheme = str ''https'', username = [], password = [], host = Some h,
                 port = None, path = Segments [[]], query = Some q, fragment = None\<rparr>"
      unfolding parses_urls_def by blast
    then show ?thesis
      by (simp add: removeSearchParams_def set_search_empty_def strip_trailing_spaces_def
          url_toString_def serialize_path_def str_def)
  qed
  have example: "removeSearchParams pf (str ''https://example.com?param=value'')
      = str ''https://example.com/''" if "parses_urls pf"
    using plain[OF that, of "str ''example.com''" "str ''param=value''"] plain_example
    by (simp add: str_def)
  show ?thesis
    using failure success no_colon plain example plain_example by blast
qed

theorem removeSearchParams_spec_witness:
  "parses_urls (example_platform 2024)
   \<and> removeSearchParams (example_platform 2024) (str ''https://example.com?param=value'')
       = str ''https://example.com/''
   \<and> removeSearchParams (example_platform 2024) (str ''not a url'') = str ''not a url''
   \<and> removeSearchParams (example_platform 2024) (str ''https://slc.events?page=2&sort=date'')
       = str ''https://slc.events/''"
proof -
  have "plain_domain (str ''slc.events'') \<and> plain_query (str ''page=2&sort=date'')"
    by (simp add: plain_domain_def plain_query_def is_lower_letter_def str_def ch_def
        sublist_Cons_right prefix_Cons)
  then show ?thesis
    using removeSearchParams_spec
      [of "example_platform 2024" "str ''not a url''" _ "str ''slc.events''"
          "str ''page=2&sort=date''"]
      example_platform_parses_urls[of 2024]
    by (simp add: str_def)
qed

subsection \<open>Price normalisation\<close>

lemma str_includes_sublist: "str_includes s t = sublist t s"
  by (induction s) (simp_all add: sublist_Cons_right)

lemma not_digit_dot [simp]: "\<not> is_digit (ch CHR ''.'')"
  by (simp add: is_digit_def str_def ch_def)

lemma match_fraction_cases:
  "match_fraction s = [] \<or>
   (\<exists>a b t. s = ch CHR ''.'' # a # b # t \<and> is_digit a \<and> is_digit b \<and> match_fraction s = [ch CHR ''.'', a, b])"
  by (auto simp: match_fraction_def split: list.splits)

lemma is_price_iff:
  "is_price m \<longleftrightarrow>
     (\<exists>ds. ds \<noteq> [] \<and> list_all is_digit ds \<and>
        (m = ch CHR ''$'' # ds \<or> (\<exists>a b. is_digit a \<and> is_digit b \<and> m = ch CHR ''$'' # ds @ [ch CHR ''.'', a, b])))"
  (is "?L = ?R")
proof
  assume ?L
  then obtain r where m: "m = ch CHR ''$'' # r" and ne: "takeWhile is_digit r \<noteq> []"
    and tail: "dropWhile is_digit r = [] \<or>
      (\<exists>a b. dropWhile is_digit r = [ch CHR ''.'', a, b] \<and> is_digit a \<and> is_digit b)"
    by (auto simp: is_price_def split: list.splits)
  have r: "r = takeWhile is_digit r @ dropWhile is_digit r" by simp
  have dig: "list_all is_digit (takeWhile is_digit r)"
    by (auto simp: list_all_iff dest: set_takeWhileD)
  from tail show ?R
  proof
    assume "dropWhile is_digit r = []"
    with r m ne dig show ?R by (metis append_Nil2)
  next
    assume "\<exists>a b. dropWhile is_digit r = [ch CHR ''.'', a, b] \<and> is_digit a \<and> is_digit b"
    then obtain a b where "dropWhile is_digit r = [ch CHR ''.'', a, b]" "is_digit a" "is_digit b"
      by blast
    with r m ne dig show ?R by metis
  qed
next
  assume ?R
  then obtain ds where ne: "ds \<noteq> []" and dig: "list_all is_digit ds"
    and m: "m = ch CHR ''$'' # ds \<or> (\<exists>a b. is_digit a \<and> is_digit b \<and> m = ch CHR ''$'' # ds @ [ch CHR ''.'', a, b])"
    by blast
  have tw: "takeWhile is_digit (ds @ t) = ds @ takeWhile is_digit t" for t
    using dig by (simp add: list_all_iff takeWhile_append2)
  have dw: "dropWhile is_digit (ds @ t) = dropWhile is_digit t" for t
    using dig by (simp add: list_all_iff dropWhile_append2)
  from m show ?L
  proof
    assume "m = ch CHR ''$'' # ds"
    moreover have t0: "takeWhile is_digit ds = ds" and d0: "dropWhile is_digit ds = []"
      using dig by (simp_all add: list_all_iff)
    ultimately show ?L using ne by (simp add: is_price_def t0 d0 del: takeWhile_eq_all_conv)
  next
    assume "\<exists>a b. is_digit a \<and> is_digit b \<and> m = ch CHR ''$'' # ds @ [ch CHR ''.'', a, b]"
    then show ?L using ne tw dw by (auto simp: is_price_def)
  qed
qed


lemma match_price_at_sound:
  assumes "match_price_at s = Some m"
  shows "is_price m \<and> prefix m s"
proof -
  from assms obtain rest where s: "s = ch CHR ''$'' # rest"
    and ne: "takeWhile is_digit rest \<noteq> []"
    and m: "m = ch CHR ''$'' # takeWhile is_digit rest @ match_fraction (dropWhile is_digit rest)"
    by (auto simp: match_price_at_def split: list.splits if_splits)
  let ?ds = "takeWhile is_digit rest" and ?after = "dropWhile is_digit rest"
  have dig: "list_all is_digit ?ds"
    by (auto simp: list_all_iff dest: set_takeWhileD)
  from match_fraction_cases[of ?after] show ?thesis
  proof
    assume f: "match_fraction ?after = []"
    have "is_price m" using ne dig m f by (auto simp: is_price_iff)
    moreover have "prefix m s" using s m f by (simp add: takeWhile_is_prefix)
    ultimately show ?thesis ..
  next
    assume "\<exists>a b t. ?after = ch CHR ''.'' # a # b # t \<and> is_digit a \<and> is_digit b
              \<and> match_fraction ?after = [ch CHR ''.'', a, b]"
    then obtain a b t where after: "?after = ch CHR ''.'' # a # b # t" and ab: "is_digit a" "is_digit b"
      and f: "match_fraction ?after = [ch CHR ''.'', a, b]" by blast
    have "is_price m" using ne dig m f ab by (auto simp: is_price_iff)
    moreover have "rest = ?ds @ ch CHR ''.'' # a # b # t"
      using after by (metis takeWhile_dropWhile_id)
    then have "s = m @ t" using s m f by simp
    then have "prefix m s" by simp
    ultimately show ?thesis ..
  qed
qed

lemma match_price_at_complete:
  assumes "is_price m'" and "prefix m' s"
  shows "\<exists>m. match_price_at s = Some m \<and> length m' \<le> length m"
proof -
  from assms(2) obtain t where s: "s = m' @ t" by (auto simp: prefix_def)
  from assms(1) obtain ds where ne: "ds \<noteq> []" and dig: "list_all is_digit ds"
    and m': "m' = ch CHR ''$'' # ds \<or>
       (\<exists>a b. is_digit a \<and> is_digit b \<and> m' = ch CHR ''$'' # ds @ [ch CHR ''.'', a, b])"
    by (auto simp: is_price_iff)
  have tw: "takeWhile is_digit (ds @ r) = ds @ takeWhile is_digit r" for r
    using dig by (simp add: list_all_iff takeWhile_append2)
  have dw: "dropWhile is_digit (ds @ r) = dropWhile is_digit r" for r
    using dig by (simp add: list_all_iff dropWhile_append2)
  from m' show ?thesis
  proof
    assume "m' = ch CHR ''$'' # ds"
    then show ?thesis using s ne tw by (simp add: match_price_at_def)
  next
    assume "\<exists>a b. is_digit a \<and> is_digit b \<and> m' = ch CHR ''$'' # ds @ [ch CHR ''.'', a, b]"
    then obtain a b where ab: "is_digit a" "is_digit b"
      and m'': "m' = ch CHR ''$'' # ds @ [ch CHR ''.'', a, b]" by blast
    then show ?thesis using s ne tw dw by (simp add: match_price_at_def match_fraction_def)
  qed
qed

lemma match_price_Some:
  "match_price s = Some m \<Longrightarrow>
     \<exists>pre post. s = pre @ m @ post \<and> match_price_at (m @ post) = Some m
       \<and> (\<forall>pre' m' post'. s = pre' @ m' @ post' \<and> is_price m' \<longrightarrow> length pre \<le> length pre')"
proof (induction s)
  case Nil
  then show ?case by simp
next
  case (Cons c cs)
  show ?case
  proof (cases "match_price_at (c # cs)")
    case (Some m0)
    with Cons.prems have m0: "m0 = m" by simp
    from match_price_at_sound[OF Some] m0 obtain post where "c # cs = m @ post"
      by (auto simp: prefix_def)
    with Some m0 have "c # cs = [] @ m @ post \<and> match_price_at (m @ post) = Some m" by simp
    then show ?thesis by (intro exI[of _ "[]"] exI[of _ post]) simp
  next
    case None
    with Cons.prems have "match_price cs = Some m" by simp
    from Cons.IH[OF this] obtain pre post where cs: "cs = pre @ m @ post"
      and at: "match_price_at (m @ post) = Some m"
      and first: "\<forall>pre' m' post'. cs = pre' @ m' @ post' \<and> is_price m' \<longrightarrow> length pre \<le> length pre'"
      by blast
    have "length (c # pre) \<le> length pre'" if dec: "c # cs = pre' @ m' @ post'" and p: "is_price m'"
      for pre' m' post'
    proof (cases pre')
      case Nil
      with dec have "prefix m' (c # cs)" by (simp add: prefix_def)
      from match_price_at_complete[OF p this] None show ?thesis by simp
    next
      case (Cons d pre'')
      with dec have "cs = pre'' @ m' @ post'" by simp
      with first p have "length pre \<le> length pre''" by blast
      with Cons show ?thesis by simp
    qed
    then have "\<forall>pre' m' post'. c # cs = pre' @ m' @ post' \<and> is_price m' \<longrightarrow>
        length (c # pre) \<le> length pre'" by blast
    moreover have "c # cs = (c # pre) @ m @ post" using cs by simp
    ultimately show ?thesis using at by blast
  qed
qed

lemma match_price_None:
  "match_price s = None \<Longrightarrow> \<not> (\<exists>pre m post. s = pre @ m @ post \<and> is_price m)"
proof (induction s)
  case Nil
  then show ?case by (auto simp: is_price_def)
next
  case (Cons c cs)
  from Cons.prems have at: "match_price_at (c # cs) = None" and rest: "match_price cs = None"
    by (simp_all split: option.splits)
  show ?case
  proof
    assume "\<exists>pre m post. c # cs = pre @ m @ post \<and> is_price m"
    then obtain pre m post where dec: "c # cs = pre @ m @ post" and p: "is_price m" by blast
    show False
    proof (cases pre)
      case Nil
      with dec have "prefix m (c # cs)" by (simp add: prefix_def)
      from match_price_at_complete[OF p this] at show False by simp
    next
      case (Cons d pre'')
      with dec have "cs = pre'' @ m @ post" by simp
      with Cons.IH[OF rest] p show False by blast
    qed
  qed
qed

lemma is_price_nonempty: "is_price m \<Longrightarrow> m \<noteq> []"
  by (auto simp: is_price_def)

lemma normalizePrice_sold_out:
  "sublist (str ''sold out'') (toLowerCase pf T) \<Longrightarrow> normalizePrice pf T = str ''SOLD OUT''"
  by (simp add: normalizePrice_def str_includes_sublist)

lemma normalizePrice_no_price:
  assumes "\<not> sublist (str ''sold out'') (toLowerCase pf T)"
    and "\<not> (\<exists>pre m post. T = pre @ m @ post \<and> is_price m)"
  shows "normalizePrice pf T = trim T"
proof -
  have "match_price T = None"
  proof (cases "match_price T")
    case (Some m)
    from match_price_Some[OF this] obtain pre post where
      "T = pre @ m @ post" "match_price_at (m @ post) = Some m" by blast
    with match_price_at_sound[of "m @ post" m] assms(2) show ?thesis by blast
  qed simp
  with assms(1) show ?thesis
    by (simp add: normalizePrice_def str_includes_sublist truthy_def)
qed

lemma normalizePrice_first_price:
  assumes "\<not> sublist (str ''sold out'') (toLowerCase pf T)"
    and "\<exists>pre m post. T = pre @ m @ post \<and> is_price m"
  shows "is_price (normalizePrice pf T)
      \<and> (\<exists>p0 q0. T = p0 @ normalizePrice pf T @ q0
            \<and> (\<forall>pre m post. T = pre @ m @ post \<and> is_price m \<longrightarrow>
                  length p0 \<le> length pre
                  \<and> (length pre = length p0 \<longrightarrow> length m \<le> length (normalizePrice pf T))))"
proof -
  from assms(2) obtain m0 where m0: "match_price T = Some m0"
    using match_price_None[of T] by (cases "match_price T") auto
  from match_price_Some[OF m0] obtain p0 q0 where dec: "T = p0 @ m0 @ q0"
    and at: "match_price_at (m0 @ q0) = Some m0"
    and first: "\<And>pre' m' post'. T = pre' @ m' @ post' \<Longrightarrow> is_price m' \<Longrightarrow> length p0 \<le> length pre'"
    by blast
  from match_price_at_sound[OF at] have pm: "is_price m0" by simp
  have res: "normalizePrice pf T = m0"
    using assms(1) m0 is_price_nonempty[OF pm]
    by (simp add: normalizePrice_def str_includes_sublist truthy_def)
  have longest: "length m \<le> length m0"
    if d: "T = pre @ m @ post" and p: "is_price m" and l: "length pre = length p0" for pre m post
  proof -
    from d dec l have "m @ post = m0 @ q0" by (simp add: append_eq_append_conv)
    then have "prefix m (m0 @ q0)" by (metis prefixI)
    from match_price_at_complete[OF p this] at show ?thesis by simp
  qed
  have "\<forall>pre m post. T = pre @ m @ post \<and> is_price m \<longrightarrow>
          length p0 \<le> length pre \<and> (length pre = length p0 \<longrightarrow> length m \<le> length m0)"
    using first longest by blast
  with dec have "\<exists>p0 q0. T = p0 @ m0 @ q0
            \<and> (\<forall>pre m post. T = pre @ m @ post \<and> is_price m \<longrightarrow>
                  length p0 \<le> length pre
                  \<and> (length pre = length p0 \<longrightarrow> length m \<le> length m0))"
    by blast
  with pm show ?thesis unfolding res by simp
qed

lemma example_platform_lowercases: "lowercases_ascii (example_platform year)"
  by (simp add: lowercases_ascii_def example_platform_def)

lemma lowercase_contains:
  assumes "lowercases_ascii pf" and "\<forall>c\<in>set T. c < 0x80"
  shows "sublist t (toLowerCase pf T) \<longleftrightarrow>
         (\<exists>pre m post. T = pre @ m @ post \<and> map ascii_lower m = t)"
proof -
  have low: "toLowerCase pf T = map ascii_lower T"
    using assms by (simp add: lowercases_ascii_def)
  show ?thesis
    unfolding low sublist_def
    by (auto simp: map_eq_append_conv append_eq_map_conv) (metis map_append)
qed

text \<open>
  C8. For every extracted price text \<open>T\<close>: if the lower-cased text contains
  \<^verbatim>\<open>sold out\<close>, the price is the literal \<^verbatim>\<open>SOLD OUT\<close>; otherwise, if \<open>T\<close> has a substring
  made of \<^verbatim>\<open>$\<close>, digits and optionally a dot with exactly two digits, the price is such a
  substring, at the leftmost position where one starts and the longest one starting
  there; otherwise the price is the trimmed text. For a text of ASCII characters the
  lower-cased text contains \<^verbatim>\<open>sold out\<close> exactly when the text has a substring that is
  \<^verbatim>\<open>sold out\<close> up to the case of its letters.
\<close>

theorem normalizePrice_spec:
  "(sublist (str ''sold out'') (toLowerCase pf T) \<longrightarrow> normalizePrice pf T = str ''SOLD OUT'')
   \<and> (\<not> sublist (str ''sold out'') (toLowerCase pf T)
        \<and> (\<exists>pre m post. T = pre @ m @ post \<and> is_price m) \<longrightarrow>
      is_price (normalizePrice pf T)
      \<and> (\<exists>p0 q0. T = p0 @ normalizePrice pf T @ q0
            \<and> (\<forall>pre m post. T = pre @ m @ post \<and> is_price m \<longrightarrow>
                  length p0 \<le> length pre
                  \<and> (length pre = length p0 \<longrightarrow> length m \<le> length (normalizePrice pf T)))))
   \<and> (\<not> sublist (str ''sold out'') (toLowerCase pf T)
        \<and> \<not> (\<exists>pre m post. T = pre @ m @ post \<and> is_price m) \<longrightarrow>
      normalizePrice pf T = trim T)
   \<and> (lowercases_ascii pf \<and> (\<forall>c\<in>set T. c < 0x80) \<longrightarrow>
        (sublist (str ''sold out'') (toLowerCase pf T) \<longleftrightarrow>
           (\<exists>pre m post. T = pre @ m @ post \<and> map ascii_lower m = str ''sold out'')))"
  using normalizePrice_sold_out[of pf T] normalizePrice_no_price[of pf T]
    normalizePrice_first_price[of pf T] lowercase_contains[of pf T "str ''sold out''"]
  by blast

theorem normalizePrice_spec_witness:
  "normalizePrice (example_platform 2024) (str ''Sold Out - join waitlist'') = str ''SOLD OUT''
   \<and> is_price (normalizePrice (example_platform 2024) (str ''Tickets $12.345 to $9''))
   \<and> normalizePrice (example_platform 2024) (str ''Tickets $12.345 to $9'') = str ''$12.34''
   \<and> normalizePrice (example_platform 2024) ([0x00A0] @ str ''Free entry '') = str ''Free entry''
   \<and> (\<exists>pre m post. str ''Sold Out - join waitlist'' = pre @ m @ post
          \<and> map ascii_lower m = str ''sold out'')"
proof -
  let ?pf = "example_platform 2024"
  have low: "toLowerCase ?pf s = map ascii_lower s" for s
    by (simp add: example_platform_def)
  have sold: "sublist (str ''sold out'') (toLowerCase ?pf (str ''Sold Out - join waitlist''))"
    unfolding str_includes_sublist[symmetric] low
    by (simp add: str_def ch_def ascii_lower_def)
  have not_sold:
    "\<not> sublist (str ''sold out'') (toLowerCase ?pf (str ''Tickets $12.345 to $9''))"
    "\<not> sublist (str ''sold out'') (toLowerCase ?pf ([0x00A0] @ str ''Free entry ''))"
    unfolding str_includes_sublist[symmetric] low
    by (simp_all add: str_def ch_def ascii_lower_def)
  have has: "\<exists>pre m post. str ''Tickets $12.345 to $9'' = pre @ m @ post \<and> is_price m"
    by (intro exI[of _ "str ''Tickets ''"] exI[of _ "str ''$12.34''"] exI[of _ "str ''5 to $9''"])
      (simp add: is_price_def is_digit_def str_def ch_def)
  have none: "\<not> (\<exists>pre m post. [0x00A0] @ str ''Free entry '' = pre @ m @ post \<and> is_price m)"
    by (rule match_price_None) (simp add: match_price_at_def str_def ch_def)
  have "normalizePrice ?pf (str ''Tickets $12.345 to $9'') = str ''$12.34''"
    by (simp add: normalizePrice_def low match_price_at_def match_fraction_def is_digit_def
        truthy_def str_def ch_def ascii_lower_def)
  moreover have "trim ([0x00A0] @ str ''Free entry '') = str ''Free entry''"
    by (simp add: trim_def is_space_def str_def ch_def)
  moreover have "\<forall>c\<in>set (str ''Sold Out - join waitlist''). c < 0x80"
    by (simp add: str_def ch_def)
  ultimately show ?thesis
    using normalizePrice_spec[of ?pf "str ''Sold Out - join waitlist''"] sold
      normalizePrice_spec[of ?pf "str ''Tickets $12.345 to $9''"] not_sold(1) has
      normalizePrice_spec[of ?pf "[0x00A0] @ str ''Free entry ''"] not_sold(2) none
      example_platform_lowercases[of 2024]
    by simp
qed

subsection \<open>Field extraction and title assembly\<close>

lemma truthy_Some [simp]: "truthy (Some s) = (s \<noteq> [])" and truthy_None [simp]: "\<not> truthy None"
  by (simp_all add: truthy_def)

lemma step_venue:
  "field_step pf el label (''venue'', Some s) st =
     Inr (st\<lparr>eventData := (eventData st)\<lparr>venue :=
        (if s = [] then venue (eventData st)
         else Some (if eval_text el s = [] then label else eval_text el s))\<rparr>\<rparr>)"
  by (simp add: field_step_def set_field_def)

lemma step_price:
  "field_step pf el label (''price'', Some s) st =
     Inr (st\<lparr>eventData := (eventData st)\<lparr>price :=
        (if s = [] then price (eventData st) else Some (normalizePrice pf (eval_text el s)))\<rparr>\<rparr>)"
  by (simp add: field_step_def)

lemma step_event:
  "field_step pf el label (''event'', Some s) st =
     Inr (st\<lparr>mainArtist := (if s = [] then mainArtist st else eval_text el s)\<rparr>)"
  by (simp add: field_step_def)

lemma step_date:
  "field_step pf el label (''date'', Some s) st =
     (if s = [] then Inr st
      else case formatDate pf (eval_text el s) of
             Inl e \<Rightarrow> Inl e
           | Inr d \<Rightarrow> Inr (st\<lparr>eventData := (eventData st)\<lparr>date := Some d\<rparr>\<rparr>))"
  by (simp add: field_step_def)

lemma step_ticketLink:
  "field_step pf el label (''ticketLink'', Some s) st =
     Inr (st\<lparr>eventData := (eventData st)\<lparr>ticketLink :=
        (if s = [] then ticketLink (eventData st)
         else removeSearchParams_arg pf (eval_href el s))\<rparr>\<rparr>)"
  by (simp add: field_step_def)

lemma step_subtitle:
  "field_step pf el label (''subtitle'', so) st =
     Inr (st\<lparr>supportingActs := (if truthy so then eval_text el (the so) else supportingActs st)\<rparr>)"
  by (simp add: field_step_def)

lemma step_pretitle:
  "field_step pf el label (''pretitle'', so) st =
     Inr (st\<lparr>presenter := (if truthy so then eval_text el (the so) else presenter st)\<rparr>)"
  by (simp add: field_step_def)

lemma scrape_element_closed_form:
  "scrape_element pf sels websiteKey label el =
     (if dateSelector sels = [] then Inr (assembled pf sels websiteKey label el None)
      else case formatDate pf (eval_text el (dateSelector sels)) of
             Inl e \<Rightarrow> Inl e
           | Inr d \<Rightarrow> Inr (assembled pf sels websiteKey label el (Some d)))"
  unfolding scrape_element_def entries_def assembled_def title_segments_def
  by (cases "formatDate pf (eval_text el (dateSelector sels))")
     (simp_all add: step_venue step_price step_event step_date step_ticketLink step_subtitle
        step_pretitle captured_def Let_def)

lemma scrape_element_Inr:
  assumes "scrape_element pf sels websiteKey label el = Inr r"
  shows "\<exists>d. r = assembled pf sels websiteKey label el d
     \<and> (if dateSelector sels = [] then d = None
         else \<exists>d'. d = Some d' \<and> formatDate pf (eval_text el (dateSelector sels)) = Inr d')"
proof (cases "dateSelector sels = []")
  case True
  with assms show ?thesis by (simp add: scrape_element_closed_form)
next
  case False
  with assms show ?thesis
    by (cases "formatDate pf (eval_text el (dateSelector sels))")
       (simp_all add: scrape_element_closed_form)
qed

lemma map_result_Inr:
  "map_result f xs = Inr ys \<Longrightarrow>
     length ys = length xs \<and> (\<forall>i<length xs. f (xs ! i) = Inr (ys ! i))"
proof (induction xs arbitrary: ys)
  case Nil
  then show ?case by simp
next
  case (Cons x xs)
  from Cons.prems obtain y ys' where fx: "f x = Inr y" and rest: "map_result f xs = Inr ys'"
    and ys: "ys = y # ys'"
    by (auto split: sum.splits)
  from Cons.IH[OF rest] have len: "length ys' = length xs"
    and nth: "\<forall>i<length xs. f (xs ! i) = Inr (ys' ! i)" by simp_all
  show ?case
    using fx len nth ys by (auto simp: nth_Cons split: nat.splits)
qed

lemma formatDate_empty: "formatDate pf [] = Inr []"
  by (simp add: formatDate_def trim_def)

lemma scrape_element_Inl:
  assumes "scrape_element pf sels websiteKey label el = Inl e"
  shows "dateSelector sels \<noteq> [] \<and> el (dateSelector sels) \<noteq> None
         \<and> formatDate pf (eval_text el (dateSelector sels)) = Inl e"
proof -
  from assms have ne: "dateSelector sels \<noteq> []"
    and thrown: "formatDate pf (eval_text el (dateSelector sels)) = Inl e"
    by (simp_all add: scrape_element_closed_form split: if_splits sum.splits)
  have "el (dateSelector sels) \<noteq> None"
  proof
    assume "el (dateSelector sels) = None"
    then have "eval_text el (dateSelector sels) = []" by (simp add: eval_text_def)
    with thrown show False by (simp add: formatDate_empty)
  qed
  with ne thrown show ?thesis by simp
qed

text \<open>
  C7. For every block for which \<^verbatim>\<open>scrapeEvents\<close> emits a record, the \<^verbatim>\<open>event\<close> field of the
  record is the join, with single spaces, of the following segments in this order: the
  text read with the \<^verbatim>\<open>pretitle\<close> selector in the platform's upper case, the text read with
  the \<^verbatim>\<open>event\<close> selector, and the text read with the \<^verbatim>\<open>subtitle\<close> selector, where a segment
  whose text is empty is left out. The other five fields are determined by the site key,
  the venue, price, date and ticket-link selectors: the three title texts reach the
  record only through the assembled title.
\<close>

theorem scrapeEvents_title_assembly:
  assumes "scrapeEvents pf page sels eventListSelector websiteKey label = Inr records"
  shows "length records = length (page eventListSelector)
     \<and> (\<forall>i<length (page eventListSelector).
          event (records ! i) =
            Some (join (str '' '')
              ((if captured (page eventListSelector ! i) (pretitleSelector sels) \<noteq> []
                then [toUpperCase pf
                        (captured (page eventListSelector ! i) (pretitleSelector sels))]
                else [])
               @ (if captured (page eventListSelector ! i) (Some (eventSelector sels)) \<noteq> []
                  then [captured (page eventListSelector ! i) (Some (eventSelector sels))]
                  else [])
               @ (if captured (page eventListSelector ! i) (subtitleSelector sels) \<noteq> []
                  then [captured (page eventListSelector ! i) (subtitleSelector sels)]
                  else [])))
          \<and> website (records ! i) = Some websiteKey
          \<and> venue (records ! i) =
              (if venueSelector sels = [] then None
               else Some (if eval_text (page eventListSelector ! i) (venueSelector sels) = []
                          then label
                          else eval_text (page eventListSelector ! i) (venueSelector sels)))
          \<and> price (records ! i) =
              (if priceSelector sels = [] then None
               else Some (normalizePrice pf
                            (eval_text (page eventListSelector ! i) (priceSelector sels))))
          \<and> (if dateSelector sels = [] then date (records ! i) = None
              else \<exists>d. date (records ! i) = Some d
                     \<and> formatDate pf (eval_text (page eventListSelector ! i) (dateSelector sels))
                         = Inr d)
          \<and> ticketLink (records ! i) =
              (if ticketLinkSelector sels = [] then None
               else removeSearchParams_arg pf
                      (eval_href (page eventListSelector ! i) (ticketLinkSelector sels))))"
proof -
  let ?els = "page eventListSelector"
  from assms have m: "map_result (scrape_element pf sels websiteKey label) ?els = Inr records"
    by (simp add: scrapeEvents_def)
  from map_result_Inr[OF m] have len: "length records = length ?els"
    and each: "\<forall>i<length ?els. scrape_element pf sels websiteKey label (?els ! i) = Inr (records ! i)"
    by simp_all
  show ?thesis
  proof (intro conjI allI impI)
    show "length records = length ?els" by (rule len)
  next
    fix i assume "i < length ?els"
    with each have r: "scrape_element pf sels websiteKey label (?els ! i) = Inr (records ! i)"
      by simp
    from scrape_element_Inr[OF r] obtain d where
      rec: "records ! i = assembled pf sels websiteKey label (?els ! i) d"
      and d: "if dateSelector sels = [] then d = None
         else \<exists>d'. d = Some d' \<and> formatDate pf (eval_text (?els ! i) (dateSelector sels)) = Inr d'"
      by blast
    show "event (records ! i) =
            Some (join (str '' '')
              ((if captured (?els ! i) (pretitleSelector sels) \<noteq> []
                then [toUpperCase pf (captured (?els ! i) (pretitleSelector sels))]
                else [])
               @ (if captured (?els ! i) (Some (eventSelector sels)) \<noteq> []
                  then [captured (?els ! i) (Some (eventSelector sels))]
                  else [])
               @ (if captured (?els ! i) (subtitleSelector sels) \<noteq> []
                  then [captured (?els ! i) (subtitleSelector sels)]
                  else [])))"
      unfolding rec assembled_def title_segments_def by simp
    show "website (records ! i) = Some websiteKey"
      unfolding rec by (simp add: assembled_def)
    show "venue (records ! i) =
              (if venueSelector sels = [] then None
               else Some (if eval_text (?els ! i) (venueSelector sels) = []
                          then label
                          else eval_text (?els ! i) (venueSelector sels)))"
      unfolding rec by (simp add: assembled_def)
    show "price (records ! i) =
              (if priceSelector sels = [] then None
               else Some (normalizePrice pf (eval_text (?els ! i) (priceSelector sels))))"
      unfolding rec by (simp add: assembled_def)
    show "if dateSelector sels = [] then date (records ! i) = None
              else \<exists>d. date (records ! i) = Some d
                     \<and> formatDate pf (eval_text (?els ! i) (dateSelector sels)) = Inr d"
      unfolding rec using d by (simp add: assembled_def)
    show "ticketLink (records ! i) =
              (if ticketLinkSelector sels = [] then None
               else removeSearchParams_arg pf (eval_href (?els ! i) (ticketLinkSelector sels)))"
      unfolding rec by (simp add: assembled_def)
  qed
qed

theorem scrapeEvents_title_assembly_witness:
  "scrapeEvents (example_platform 2024) (\<lambda>_. [mock_element])
     (mockSelectors\<lparr>subtitleSelector := Some (str ''.sub''),
        pretitleSelector := Some (str ''.pre'')\<rparr>)
     (str ''.event-list'') (str ''testSite'') (str ''Test Venue'')
   = Inr [\<lparr>website = Some (str ''testSite''), venue = Some (str ''Test Venue''),
           price = Some (str ''mockValue''),
           event = Some (str ''MOCKVALUE mockValue mockValue''),
           date = Some (str ''Thu, Jul 4, 2024''), ticketLink = Some (str ''mockValue'')\<rparr>]
   \<and> join (str '' '')
       ([toUpperCase (example_platform 2024) (captured mock_element (Some (str ''.pre'')))]
        @ [captured mock_element (Some (str ''.event''))]
        @ [captured mock_element (Some (str ''.sub''))])
     = str ''MOCKVALUE mockValue mockValue''"
proof -
  let ?sels = "mockSelectors\<lparr>subtitleSelector := Some (str ''.sub''),
        pretitleSelector := Some (str ''.pre'')\<rparr>"
  have run: "scrapeEvents (example_platform 2024) (\<lambda>_. [mock_element]) ?sels
     (str ''.event-list'') (str ''testSite'') (str ''Test Venue'')
   = Inr [\<lparr>website = Some (str ''testSite''), venue = Some (str ''Test Venue''),
           price = Some (str ''mockValue''),
           event = Some (str ''MOCKVALUE mockValue mockValue''),
           date = Some (str ''Thu, Jul 4, 2024''), ticketLink = Some (str ''mockValue'')\<rparr>]"
    by code_simp
  have ne: "captured mock_element (Some (str ''.pre'')) \<noteq> []
      \<and> captured mock_element (Some (str ''.event'')) \<noteq> []
      \<and> captured mock_element (Some (str ''.sub'')) \<noteq> []"
    by code_simp
  from scrapeEvents_title_assembly[OF run]
  have "event ([\<lparr>website = Some (str ''testSite''), venue = Some (str ''Test Venue''),
           price = Some (str ''mockValue''),
           event = Some (str ''MOCKVALUE mockValue mockValue''),
           date = Some (str ''Thu, Jul 4, 2024''), ticketLink = Some (str ''mockValue'')\<rparr>] ! 0)
     = Some (join (str '' '')
         ((if captured ([mock_element] ! 0) (pretitleSelector ?sels) \<noteq> []
           then [toUpperCase (example_platform 2024)
                   (captured ([mock_element] ! 0) (pretitleSelector ?sels))]
           else [])
          @ (if captured ([mock_element] ! 0) (Some (eventSelector ?sels)) \<noteq> []
             then [captured ([mock_element] ! 0) (Some (eventSelector ?sels))]
             else [])
          @ (if captured ([mock_element] ! 0) (subtitleSelector ?sels) \<noteq> []
             then [captured ([mock_element] ! 0) (subtitleSelector ?sels)]
             else [])))"
    by blast
  then have "str ''MOCKVALUE mockValue mockValue''
     = join (str '' '')
       ([toUpperCase (example_platform 2024) (captured mock_element (Some (str ''.pre'')))]
        @ [captured mock_element (Some (str ''.event''))]
        @ [captured mock_element (Some (str ''.sub''))])"
    using ne by (simp add: mockSelectors_def)
  with run show ?thesis by simp
qed

subsection \<open>The calendar arithmetic of \<^verbatim>\<open>Date\<close>\<close>

lemma div_add1:
  fixes x k :: int
  assumes k: "0 < k"
  shows "(x + 1) div k = x div k + (if (x + 1) mod k = 0 then 1 else 0)"
proof (cases "(x + 1) mod k = 0")
  case True
  then have "x + 1 = (x + 1) div k * k" by (simp add: mod_eq_0_iff_dvd)
  then have "x = (k - 1) + ((x + 1) div k - 1) * k" by (simp add: algebra_simps)
  then have "x div k = (k - 1 + ((x + 1) div k - 1) * k) div k" by simp
  also have "\<dots> = ((x + 1) div k - 1) + (k - 1) div k"
    using k by simp
  also have "(k - 1) div k = 0" using k by (simp add: div_pos_pos_trivial)
  finally show ?thesis using True by simp
next
  case False
  have "0 \<le> (x + 1) mod k" "(x + 1) mod k < k" using k by simp_all
  with False have r: "0 \<le> (x + 1) mod k - 1" "(x + 1) mod k - 1 < k" by linarith+
  have "x + 1 = (x + 1) mod k + (x + 1) div k * k" by simp
  then have "x = ((x + 1) mod k - 1) + (x + 1) div k * k" by linarith
  then have "x div k = (((x + 1) mod k - 1) + (x + 1) div k * k) div k" by simp
  also have "\<dots> = (x + 1) div k + ((x + 1) mod k - 1) div k"
    using k by simp
  also have "((x + 1) mod k - 1) div k = 0" using r by (simp add: div_pos_pos_trivial)
  finally show ?thesis using False by simp
qed

lemma mod_sub_mult: "(y - c * k) mod k = y mod k" for y :: int
  by (metis diff_zero mod_diff_right_eq mod_mult_self1_is_0 mult.commute)

lemma leap_mods:
  fixes y :: int
  shows "y mod 400 = 0 \<Longrightarrow> y mod 100 = 0" and "y mod 100 = 0 \<Longrightarrow> y mod 4 = 0"
  by auto

lemma DayFromYear_Suc: "DayFromYear (y + 1) = DayFromYear y + DaysInYear y"
proof -
  have a: "(y + 1 - 1969) div 4 = (y - 1969) div 4 + (if y mod 4 = 0 then 1 else 0)"
    using div_add1[of 4 "y - 1969"] mod_sub_mult[of y 492 4] by (simp add: algebra_simps)
  have b: "(y + 1 - 1901) div 100 = (y - 1901) div 100 + (if y mod 100 = 0 then 1 else 0)"
    using div_add1[of 100 "y - 1901"] mod_sub_mult[of y 19 100] by (simp add: algebra_simps)
  have c: "(y + 1 - 1601) div 400 = (y - 1601) div 400 + (if y mod 400 = 0 then 1 else 0)"
    using div_add1[of 400 "y - 1601"] mod_sub_mult[of y 4 400] by (simp add: algebra_simps)
  show ?thesis
    unfolding DayFromYear_def DaysInYear_def a b c
    using leap_mods[of y] by auto
qed

lemma DaysInYear_bounds: "365 \<le> DaysInYear y" "DaysInYear y \<le> 366"
  by (simp_all add: DaysInYear_def)

lemma DayFromYear_mono: "y \<le> y' \<Longrightarrow> DayFromYear y \<le> DayFromYear y'"
proof (induction y' rule: int_ge_induct)
  case base
  show ?case by simp
next
  case (step i)
  then show ?case using DayFromYear_Suc[of i] DaysInYear_bounds(1)[of i] by linarith
qed

lemma DayFromYear_1970: "DayFromYear 1970 = 0"
  by (simp add: DayFromYear_def)

lemma DayFromYear_lower1: "1970 \<le> y \<Longrightarrow> 365 * (y - 1970) \<le> DayFromYear y"
proof (induction y rule: int_ge_induct)
  case base
  show ?case by (simp add: DayFromYear_1970)
next
  case (step i)
  then show ?case using DayFromYear_Suc[of i] DaysInYear_bounds(1)[of i] 
    by (simp add: algebra_simps)
qed

lemma DayFromYear_lower2: "y \<le> 1970 \<Longrightarrow> 366 * (y - 1970) \<le> DayFromYear y"
proof (induction y rule: int_le_induct)
  case base
  show ?case by (simp add: DayFromYear_1970)
next
  case (step i)
  then show ?case using DayFromYear_Suc[of "i - 1"] DaysInYear_bounds(2)[of "i - 1"] by simp
qed

lemma year_from_unique:
  "DayFromYear y \<le> d \<Longrightarrow> d < DayFromYear (y + 1) \<Longrightarrow> y \<le> y0 \<Longrightarrow> year_from d y0 = y"
proof (induction d y0 rule: year_from.induct)
  case (1 d y0)
  show ?case
  proof (cases "DayFromYear y0 \<le> d")
    case True
    have "\<not> y + 1 \<le> y0"
    proof
      assume "y + 1 \<le> y0"
      from DayFromYear_mono[OF this] True "1.prems"(2) show False by linarith
    qed
    with "1.prems"(3) have "y0 = y" by linarith
    with True show ?thesis by (simp add: year_from.simps)
  next
    case False
    with "1.prems"(1) have "y0 \<noteq> y" by auto
    with "1.prems"(3) have "y \<le> y0 - 1" by linarith
    from "1.IH"[OF False "1.prems"(1,2) this] False show ?thesis
      by (subst year_from.simps) simp
  qed
qed

lemma le_div_numeral: "365 * k \<le> d \<Longrightarrow> k \<le> d div 365" "366 * k \<le> d \<Longrightarrow> k \<le> d div 366"
  for k d :: int
  by linarith+

lemma year_estimate:
  assumes "DayFromYear y \<le> d"
  shows "y \<le> 1970 + (if 0 \<le> d then d div 365 else d div 366)"
proof (cases "0 \<le> d")
  case True
  show ?thesis
  proof (cases "1970 \<le> y")
    case True
    from DayFromYear_lower1[OF this] assms have "365 * (y - 1970) \<le> d" by linarith
    from le_div_numeral(1)[OF this] \<open>0 \<le> d\<close> show ?thesis by simp
  next
    case False
    moreover have "0 \<le> d div 365" using True by simp
    ultimately show ?thesis using True by simp
  qed
next
  case False
  have "y \<le> 1970"
  proof (rule ccontr)
    assume "\<not> y \<le> 1970"
    then have "1970 \<le> y" by simp
    from DayFromYear_mono[OF this] have "0 \<le> DayFromYear y" by (simp add: DayFromYear_1970)
    with assms False show False by linarith
  qed
  from DayFromYear_lower2[OF this] assms have "366 * (y - 1970) \<le> d" by linarith
  from le_div_numeral(2)[OF this] False show ?thesis by simp
qed

lemma Day_times [simp]: "Day (n * msPerDay) = n"
  by (simp add: Day_def msPerDay_def)

lemma YearFromTime_unique:
  assumes "DayFromYear y \<le> n" and "n < DayFromYear (y + 1)"
  shows "YearFromTime (n * msPerDay) = y"
  unfolding YearFromTime_def Day_times
  by (rule year_from_unique[OF assms year_estimate[OF assms(1)]])


lemma month_index_cases:
  fixes mi :: int
  assumes "0 \<le> mi" "mi \<le> 11"
  shows "mi = 0 \<or> mi = 1 \<or> mi = 2 \<or> mi = 3 \<or> mi = 4 \<or> mi = 5 \<or> mi = 6 \<or> mi = 7
         \<or> mi = 8 \<or> mi = 9 \<or> mi = 10 \<or> mi = 11"
  using assms by presburger

lemma DaysInYear_cases: "DaysInYear y = 365 \<or> DaysInYear y = 366"
  by (simp add: DaysInYear_def)

lemma MakeDay_in_year:
  assumes "0 \<le> mi" "mi \<le> 11" "1 \<le> dd" "dd \<le> DaysInMonth y mi"
  shows "MakeDay y mi dd = DayFromYear y + month_start y mi + dd - 1"
    and "0 \<le> month_start y mi + dd - 1"
    and "month_start y mi + dd - 1 < DaysInYear y"
proof -
  show "MakeDay y mi dd = DayFromYear y + month_start y mi + dd - 1"
    using assms(1,2) by (simp add: MakeDay_def Let_def div_pos_pos_trivial mod_pos_pos_trivial)
  show "0 \<le> month_start y mi + dd - 1"
    using month_index_cases[OF assms(1,2)] assms(3)
    by (elim disjE) (simp_all add: month_start_def)
  show "month_start y mi + dd - 1 < DaysInYear y"
    using month_index_cases[OF assms(1,2)] assms(4) DaysInYear_cases[of y]
    by (elim disjE) (simp_all add: month_start_def DaysInMonth_def)
qed

lemma Date_fields:
  assumes "0 \<le> mi" "mi \<le> 11" "1 \<le> dd" "dd \<le> DaysInMonth y mi"
  shows "YearFromTime (MakeDay y mi dd * msPerDay) = y"
    and "DateFromTime (MakeDay y mi dd * msPerDay) = dd"
proof -
  note m = MakeDay_in_year[OF assms]
  have "DayFromYear y \<le> MakeDay y mi dd" "MakeDay y mi dd < DayFromYear (y + 1)"
    using m by (simp_all add: DayFromYear_Suc)
  then show yr: "YearFromTime (MakeDay y mi dd * msPerDay) = y"
    by (rule YearFromTime_unique)
  have dwy: "DayWithinYear (MakeDay y mi dd * msPerDay) = month_start y mi + dd - 1"
    unfolding DayWithinYear_def yr Day_times by (simp add: m(1))
  have leap: "InLeapYear (MakeDay y mi dd * msPerDay) = (if DaysInYear y = 366 then 1 else 0)"
    by (simp add: InLeapYear_def yr)
  have mon: "MonthFromTime (MakeDay y mi dd * msPerDay) = mi"
    unfolding MonthFromTime_def dwy leap Let_def
    using month_index_cases[OF assms(1,2)] assms(3,4) DaysInYear_cases[of y]
    by (elim disjE) (simp_all add: month_start_def DaysInMonth_def)
  show "DateFromTime (MakeDay y mi dd * msPerDay) = dd"
    unfolding DateFromTime_def mon dwy leap Let_def
    using month_index_cases[OF assms(1,2)]
    by (elim disjE) (simp_all add: month_start_def)
qed

lemma WeekDay_range: "0 \<le> WeekDay t" "WeekDay t < 7"
  by (simp_all add: WeekDay_def)

subsection \<open>Splitting into parts, decimal numbers\<close>

lemma split_runs_nonempty: "split_runs p s \<noteq> []"
  by (induction p s rule: split_runs.induct) (auto split: list.splits)

lemma parts_dropWhile:
  "filter (\<lambda>w. w \<noteq> []) (split_runs p (dropWhile p s)) = filter (\<lambda>w. w \<noteq> []) (split_runs p s)"
  by (cases s) simp_all

lemma split_runs_word:
  "\<forall>c\<in>set w. \<not> p c \<Longrightarrow>
     split_runs p (w @ r) = (w @ hd (split_runs p r)) # tl (split_runs p r)"
proof (induction w)
  case Nil
  then show ?case using split_runs_nonempty[of p r] by simp
next
  case (Cons x w)
  then show ?case by simp
qed

lemma parts_of_separator: "is_separator c \<Longrightarrow> parts_of (c # cs) = parts_of cs"
  by (simp add: parts_of_def parts_dropWhile)

lemma parts_of_word_sep:
  assumes "w \<noteq> []" and "\<forall>c\<in>set w. \<not> is_separator c" and "is_separator c"
  shows "parts_of (w @ c # cs) = w # parts_of cs"
  using assms by (simp add: parts_of_def split_runs_word parts_dropWhile)

lemma parts_of_word_end:
  assumes "w \<noteq> []" and "\<forall>c\<in>set w. \<not> is_separator c"
  shows "parts_of w = [w]"
  using assms split_runs_word[of w is_separator "[]"] by (simp add: parts_of_def)

lemma parts_of_nonempty: "[] \<notin> set (parts_of s)"
  by (simp add: parts_of_def)

lemma digit_nth:
  assumes "k < 10"
  shows "is_digit (str ''0123456789'' ! k)" and "digit_value (str ''0123456789'' ! k) = k"
proof -
  from assms have "k = 0 \<or> k = 1 \<or> k = 2 \<or> k = 3 \<or> k = 4 \<or> k = 5 \<or> k = 6 \<or> k = 7 \<or> k = 8 \<or> k = 9"
    by presburger
  then show "is_digit (str ''0123456789'' ! k)" and "digit_value (str ''0123456789'' ! k) = k"
    by (elim disjE; simp add: is_digit_def digit_value_def str_def ch_def)+
qed

lemma decimal_digits: "decimal n \<noteq> [] \<and> list_all is_digit (decimal n)"
proof (induction n rule: decimal.induct)
  case (1 n)
  show ?case
  proof (cases "n < 10")
    case True
    then show ?thesis by (subst (1 2) decimal.simps) (simp add: digit_nth)
  next
    case False
    with 1 show ?thesis by (subst (1 2) decimal.simps) (simp add: digit_nth)
  qed
qed

lemma decimal_value: "foldl (\<lambda>a c. 10 * a + digit_value c) 0 (decimal n) = n"
proof (induction n rule: decimal.induct)
  case (1 n)
  show ?case
  proof (cases "n < 10")
    case True
    then show ?thesis by (subst decimal.simps) (simp add: digit_nth)
  next
    case False
    with 1 show ?thesis by (subst decimal.simps) (simp add: digit_nth)
  qed
qed

lemma filter_digits_decimal: "filter is_digit (decimal n) = decimal n"
  using decimal_digits[of n] by (simp add: list_all_iff)

lemma parseInt_decimal: "parseInt (Some (decimal n)) = Some (int n)"
proof -
  have tw: "takeWhile is_digit (decimal n) = decimal n"
    using decimal_digits[of n] by (simp add: list_all_iff)
  show ?thesis
    by (simp add: parseInt_def tw decimal_value decimal_digits Let_def
        del: takeWhile_eq_all_conv)
qed

lemma digit_not_separator: "is_digit c \<Longrightarrow> \<not> is_separator c \<and> c \<noteq> ch CHR ''-'' \<and> \<not> is_space c"
  by (auto simp: is_digit_def is_separator_def is_space_def str_def ch_def)

lemma trim_id:
  assumes "s \<noteq> []" and "\<not> is_space (hd s)" and "\<not> is_space (last s)"
  shows "trim s = s"
proof -
  from assms have a: "dropWhile is_space s = s" by (cases s) simp_all
  from assms have "dropWhile is_space (rev s) = rev s" by (cases "rev s") (simp_all add: hd_rev)
  with a show ?thesis by (simp add: trim_def)
qed

subsection \<open>\<^verbatim>\<open>formatDate\<close>: which inputs return, and which pass through\<close>

lemma trim_empty_iff: "trim s = [] \<longleftrightarrow> (\<forall>c\<in>set s. is_space c)"
proof -
  have "dropWhile is_space (rev (dropWhile is_space s)) = [] \<longleftrightarrow> dropWhile is_space s = []"
  proof
    assume h: "dropWhile is_space (rev (dropWhile is_space s)) = []"
    show "dropWhile is_space s = []"
    proof (rule ccontr)
      assume ne: "dropWhile is_space s \<noteq> []"
      then have "\<not> is_space (hd (dropWhile is_space s))" by (rule hd_dropWhile)
      moreover have "hd (dropWhile is_space s) \<in> set (rev (dropWhile is_space s))"
        using ne by simp
      ultimately show False using h by (auto simp: dropWhile_eq_Nil_conv)
    qed
  qed (simp del: dropWhile_eq_Nil_conv)
  then show ?thesis by (simp add: trim_def dropWhile_eq_Nil_conv)
qed

lemma split_on_absent: "c \<notin> set s \<Longrightarrow> split_on c s = [s]"
  by (induction s) auto

lemma split_on_once: "c \<notin> set a \<Longrightarrow> split_on c (a @ c # b) = a # split_on c b"
  by (induction a) auto

lemma split_on_nonempty: "split_on c s \<noteq> []"
  by (induction s) (auto split: list.splits)

lemma pieces_nonempty: "pieces s \<noteq> []"
  by (simp add: pieces_def split_on_nonempty)

lemma pieces_single: "ch CHR ''-'' \<notin> set s \<Longrightarrow> pieces s = [trim s]"
  by (simp add: pieces_def split_on_absent)

lemma pieces_range:
  "ch CHR ''-'' \<notin> set a \<Longrightarrow> ch CHR ''-'' \<notin> set b \<Longrightarrow>
     pieces (a @ ch CHR ''-'' # b) = [trim a, trim b]"
  by (simp add: pieces_def split_on_once split_on_absent)

lemma nth_opt_simps [simp]:
  "nth_opt (x # xs) 0 = Some x"
  "nth_opt (x # xs) (Suc n) = nth_opt xs n"
  "nth_opt [] n = None"
  by (simp_all add: nth_opt_def)

lemma parts_of_Nil: "parts_of [] = []"
  by (simp add: parts_of_def)

lemma format_fields_month: "\<exists>r. format_fields pf d (Some mo) dy yr = Inr r"
  by (simp add: format_fields_def Let_def)

lemma format_fields_no_month: "format_fields pf d None dy yr = Inl TypeError"
  by (simp add: format_fields_def Let_def)

lemma format_fields_unresolved:
  "months_findIndex pf mo = - 1 \<Longrightarrow> format_fields pf d (Some mo) dy yr = Inr d"
  by (simp add: format_fields_def Let_def)

text \<open>
  \<^verbatim>\<open>parseSingleDate\<close> throws exactly on a string without a part (\<^verbatim>\<open>parts[0]\<close> is undefined)
  and on a weekday abbreviation standing alone (\<^verbatim>\<open>month\<close> is undefined), and then a
  TypeError.
\<close>

lemma parseSingleDate_throws_iff:
  "parseSingleDate pf d = Inl e \<longleftrightarrow> e = TypeError \<and> \<not> has_first_part d"
proof (cases "parts_of d")
  case Nil
  then show ?thesis
    by (auto simp: parseSingleDate_def has_first_part_def array_includes_def)
next
  case (Cons p0 ps)
  show ?thesis
  proof (cases "p0 \<in> set days")
    case True
    show ?thesis
    proof (cases ps)
      case Nil
      with True Cons show ?thesis
        by (auto simp: parseSingleDate_def has_first_part_def array_includes_def
            format_fields_no_month)
    next
      case (Cons mo rest)
      with True \<open>parts_of d = p0 # ps\<close> show ?thesis
        using format_fields_month[of pf d mo "nth_opt rest 0" "nth_opt rest 1"]
        by (auto simp: parseSingleDate_def has_first_part_def array_includes_def
            numeral_2_eq_2 numeral_3_eq_3)
    qed
  next
    case False
    have h: "has_first_part d"
      using False Cons by (cases ps) (simp_all add: has_first_part_def)
    have "\<exists>r. parseSingleDate pf d = Inr r"
      using False Cons format_fields_month[of pf d p0 "nth_opt ps 0" "nth_opt ps 1"]
      by (auto simp: parseSingleDate_def array_includes_def numeral_2_eq_2 Let_def)
    with h show ?thesis by auto
  qed
qed

lemma parseSingleDate_returns: "has_first_part d \<Longrightarrow> \<exists>r. parseSingleDate pf d = Inr r"
  using parseSingleDate_throws_iff[of pf d] by (cases "parseSingleDate pf d") auto

lemma parseSingleDate_unrecognized:
  assumes "unrecognized pf d"
  shows "parseSingleDate pf d = Inr d"
proof (cases "parts_of d")
  case Nil
  with assms show ?thesis by (simp add: unrecognized_def)
next
  case (Cons p0 ps)
  show ?thesis
  proof (cases "p0 \<in> set days")
    case True
    with assms Cons obtain mo rest where ps: "ps = mo # rest"
      and mi: "months_findIndex pf mo = - 1"
      by (auto simp: unrecognized_def split: list.splits)
    with True Cons show ?thesis
      by (simp add: parseSingleDate_def array_includes_def format_fields_unresolved
          numeral_2_eq_2 numeral_3_eq_3)
  next
    case False
    with assms Cons have "take 3 p0 \<notin> set months \<or> months_findIndex pf p0 = - 1"
      by (simp add: unrecognized_def)
    with False Cons show ?thesis
      by (auto simp: parseSingleDate_def array_includes_def format_fields_unresolved
          numeral_2_eq_2 Let_def)
  qed
qed

lemma map_result_returns:
  "\<forall>x\<in>set xs. \<exists>y. f x = Inr y \<Longrightarrow> \<exists>ys. map_result f xs = Inr ys"
  by (induction xs) auto

lemma map_result_same: "\<forall>x\<in>set xs. f x = Inr (g x) \<Longrightarrow> map_result f xs = Inr (map g xs)"
  by (induction xs) auto

lemma map_result_cong:
  "\<forall>x\<in>set xs. f x = g x \<Longrightarrow> map_result f xs = map_result g xs"
  by (induction xs) (auto split: sum.splits)

lemma map_result_throws:
  "map_result f xs = Inl e \<Longrightarrow> \<exists>x\<in>set xs. f x = Inl e"
  by (induction xs) (auto split: sum.splits)

lemma map_result_first_throw:
  "\<forall>x\<in>set xs. \<exists>y. f x = Inr y \<Longrightarrow> f z = Inl e \<Longrightarrow> map_result f (xs @ z # zs) = Inl e"
  by (induction xs) auto

lemma formatDate_returns:
  assumes "\<forall>d\<in>set (pieces s). has_first_part d"
  shows "\<exists>r. formatDate pf s = Inr r"
proof -
  from assms have "\<forall>d\<in>set (pieces s). \<exists>y. parseSingleDate pf d = Inr y"
    using parseSingleDate_returns by blast
  from map_result_returns[OF this] obtain ys where
    "map_result (parseSingleDate pf) (pieces s) = Inr ys" by blast
  then show ?thesis by (simp add: formatDate_def)
qed

text \<open>
  The converse: \<^verbatim>\<open>formatDate\<close> throws a TypeError, and nothing else, exactly when its input
  is neither white space nor the marker and one of its trimmed pieces has no part or is
  a weekday abbreviation alone.
\<close>

lemma formatDate_throws_iff:
  "formatDate pf s = Inl e \<longleftrightarrow>
     e = TypeError \<and> trim s \<noteq> [] \<and> s \<noteq> str ''mockValue''
     \<and> (\<exists>d\<in>set (pieces s). \<not> has_first_part d)"
proof
  assume l: "formatDate pf s = Inl e"
  then have g: "trim s \<noteq> []" "s \<noteq> str ''mockValue''"
    by (auto simp: formatDate_def split: if_splits)
  with l have "map_result (parseSingleDate pf) (pieces s) = Inl e"
    by (auto simp: formatDate_def split: sum.splits if_splits)
  from map_result_throws[OF this] obtain d where "d \<in> set (pieces s)"
    "parseSingleDate pf d = Inl e" by blast
  with g show "e = TypeError \<and> trim s \<noteq> [] \<and> s \<noteq> str ''mockValue''
     \<and> (\<exists>d\<in>set (pieces s). \<not> has_first_part d)"
    using parseSingleDate_throws_iff[of pf d e] by blast
next
  assume r: "e = TypeError \<and> trim s \<noteq> [] \<and> s \<noteq> str ''mockValue''
     \<and> (\<exists>d\<in>set (pieces s). \<not> has_first_part d)"
  then obtain d where d: "d \<in> set (pieces s)" "\<not> has_first_part d" by blast
  have "\<exists>e'. map_result (parseSingleDate pf) (pieces s) = Inl e'"
  proof (cases "map_result (parseSingleDate pf) (pieces s)")
    case (Inr ys)
    from map_result_Inr[OF this] d obtain i where "i < length (pieces s)"
      "parseSingleDate pf (pieces s ! i) = Inr (ys ! i)" "pieces s ! i = d"
      by (metis in_set_conv_nth)
    with d(2) parseSingleDate_throws_iff[of pf d TypeError] show ?thesis by simp
  qed blast
  then obtain e' where e': "map_result (parseSingleDate pf) (pieces s) = Inl e'" by blast
  from map_result_throws[OF this] parseSingleDate_throws_iff[of pf _ e']
  have "e' = TypeError" by blast
  with e' r show "formatDate pf s = Inl e" by (simp add: formatDate_def)
qed

lemma formatDate_unrecognized:
  assumes "\<forall>d\<in>set (pieces s). unrecognized pf d"
  shows "formatDate pf s
           = Inr (if length (pieces s) = 2 then join (str '' - '') (pieces s)
                  else hd (pieces s))"
proof -
  have m: "map_result (parseSingleDate pf) (pieces s) = Inr (pieces s)"
    using map_result_same[of "pieces s" "parseSingleDate pf" "\<lambda>d. d"] assms
      parseSingleDate_unrecognized by simp
  have ne: "trim s \<noteq> []"
  proof
    assume e: "trim s = []"
    have "ch CHR ''-'' \<notin> set s"
    proof
      assume "ch CHR ''-'' \<in> set s"
      moreover have "\<not> is_space (ch CHR ''-'')" by (simp add: is_space_def ch_def)
      ultimately show False using e by (auto simp: trim_empty_iff)
    qed
    then have "pieces s = [[]]" using e by (simp add: pieces_single)
    with assms show False by (simp add: unrecognized_def parts_of_Nil)
  qed
  show ?thesis
  proof (cases "s = str ''mockValue''")
    case True
    have "pieces (str ''mockValue'') = [str ''mockValue'']"
      by (simp add: pieces_def trim_def is_space_def str_def ch_def)
    with True show ?thesis by (simp add: formatDate_def)
  next
    case False
    with ne m pieces_nonempty[of s] show ?thesis
      by (cases "pieces s") (simp_all add: formatDate_def)
  qed
qed

subsection \<open>Platforms that lower-case ASCII text as Unicode says\<close>

lemma findIndex_cong: "\<forall>x\<in>set xs. P x = Q x \<Longrightarrow> findIndex P xs = findIndex Q xs"
  by (induction xs) (auto simp: Let_def)

lemma months_ascii: "m \<in> set months \<Longrightarrow> \<forall>c\<in>set m. c < 0x80"
  by (auto simp: months_def str_def ch_def)

lemma months_findIndex_conforming:
  assumes "lowercases_ascii pf" and "\<forall>c\<in>set mo. c < 0x80"
  shows "months_findIndex pf mo = months_findIndex (example_platform year) mo"
proof -
  have a: "toLowerCase pf mo = map ascii_lower mo"
    using assms by (simp add: lowercases_ascii_def)
  have b: "\<forall>m\<in>set months. toLowerCase pf m = map ascii_lower m"
    using assms(1) months_ascii by (simp add: lowercases_ascii_def)
  show ?thesis
    unfolding months_findIndex_def a
    by (rule findIndex_cong) (simp add: b example_platform_def)
qed

lemma format_fields_conforming:
  assumes "lowercases_ascii pf" and "\<forall>m. mo = Some m \<longrightarrow> (\<forall>c\<in>set m. c < 0x80)"
  shows "format_fields pf d mo dy yr
           = format_fields (example_platform (currentYear pf)) d mo dy yr"
proof (cases mo)
  case None
  then show ?thesis by (simp add: format_fields_def Let_def)
next
  case (Some m)
  with assms have "months_findIndex pf m = months_findIndex (example_platform (currentYear pf)) m"
    by (intro months_findIndex_conforming) simp_all
  with Some show ?thesis by (simp add: format_fields_def Let_def example_platform_def)
qed

lemma split_runs_chars: "w \<in> set (split_runs p s) \<Longrightarrow> set w \<subseteq> set s"
proof (induction p s arbitrary: w rule: split_runs.induct)
  case (1 p)
  then show ?case by simp
next
  case (2 p x xs)
  show ?case
  proof (cases "p x")
    case True
    with 2 show ?thesis by (auto dest: set_dropWhileD)
  next
    case False
    show ?thesis
    proof (cases "split_runs p xs")
      case Nil
      with False 2 show ?thesis by simp
    next
      case (Cons v vs)
      with False 2(2)[OF False, of v] 2(2)[OF False, of w] "2.prems" show ?thesis by auto
    qed
  qed
qed

lemma parts_of_chars: "w \<in> set (parts_of s) \<Longrightarrow> set w \<subseteq> set s"
  using split_runs_chars[of w is_separator s] by (simp add: parts_of_def)

lemma nth_opt_mem: "nth_opt xs i = Some x \<Longrightarrow> x \<in> set xs"
  by (auto simp: nth_opt_def split: if_splits)

lemma parseSingleDate_conforming:
  assumes "lowercases_ascii pf" and "\<forall>c\<in>set d. c < 0x80"
  shows "parseSingleDate pf d = parseSingleDate (example_platform (currentYear pf)) d"
proof -
  let ?ep = "example_platform (currentYear pf)"
  have ff: "format_fields pf d (Some m) dy yr = format_fields ?ep d (Some m) dy yr"
    if "m \<in> set (parts_of d)" for m dy yr
    using that assms(2) parts_of_chars[of m d]
    by (intro format_fields_conforming[OF assms(1)]) auto
  have fn: "format_fields pf d None dy yr = format_fields ?ep d None dy yr" for dy yr
    by (simp add: format_fields_no_month)
  show ?thesis
    unfolding parseSingleDate_def Let_def
    by (cases "nth_opt (parts_of d) 0"; cases "nth_opt (parts_of d) (Suc 0)")
       (auto simp: ff fn dest: nth_opt_mem)
qed

lemma trim_chars: "set (trim s) \<subseteq> set s"
  by (auto simp: trim_def dest!: set_dropWhileD)

lemma split_on_chars: "w \<in> set (split_on c s) \<Longrightarrow> set w \<subseteq> set s"
proof (induction s arbitrary: w)
  case Nil
  then show ?case by simp
next
  case (Cons x xs)
  show ?case
  proof (cases "x = c")
    case True
    with Cons show ?thesis by auto
  next
    case False
    show ?thesis
    proof (cases "split_on c xs")
      case Nil
      with False Cons show ?thesis by simp
    next
      case (Cons v vs)
      with False Cons.IH[of v] Cons.IH[of w] Cons.prems show ?thesis by auto
    qed
  qed
qed

lemma pieces_chars: "d \<in> set (pieces s) \<Longrightarrow> set d \<subseteq> set s"
  using trim_chars split_on_chars by (fastforce simp: pieces_def)

text \<open>
  On ASCII text, \<^verbatim>\<open>formatDate\<close> gives on every platform that lower-cases ASCII text as
  Unicode says what it gives on the example platform in the same year.
\<close>

lemma formatDate_conforming:
  assumes "lowercases_ascii pf" and "\<forall>c\<in>set s. c < 0x80"
  shows "formatDate pf s = formatDate (example_platform (currentYear pf)) s"
proof -
  have "\<forall>d\<in>set (pieces s). parseSingleDate pf d
          = parseSingleDate (example_platform (currentYear pf)) d"
    using parseSingleDate_conforming[OF assms(1)] assms(2) pieces_chars by blast
  from map_result_cong[OF this] show ?thesis by (simp add: formatDate_def)
qed

subsection \<open>Pass-through of \<^verbatim>\<open>formatDate\<close>\<close>

lemma trim_space_Cons: "is_space c \<Longrightarrow> trim (c # s) = trim s"
  by (simp add: trim_def)

lemma trim_space_snoc:
  assumes "is_space c"
  shows "trim (s @ [c]) = trim s"
proof (cases "\<forall>x\<in>set s. is_space x")
  case True
  with assms have "trim (s @ [c]) = []" "trim s = []" by (simp_all add: trim_empty_iff)
  then show ?thesis by simp
next
  case False
  then have "dropWhile is_space (s @ [c]) = dropWhile is_space s @ [c]"
    by (auto simp: dropWhile_append1)
  with assms show ?thesis by (simp add: trim_def)
qed

lemma range_literal: "a @ str '' - '' @ b = (a @ [ch CHR '' '']) @ ch CHR ''-'' # ch CHR '' '' # b"
  by (simp add: str_def)

lemma formatDate_unrecognized_range:
  assumes "ch CHR ''-'' \<notin> set a" "ch CHR ''-'' \<notin> set b" "trim a = a" "trim b = b"
    and "unrecognized pf a" "unrecognized pf b"
  shows "formatDate pf (a @ str '' - '' @ b) = Inr (a @ str '' - '' @ b)"
proof -
  have sp: "is_space (ch CHR '' '')" "ch CHR ''-'' \<noteq> ch CHR '' ''"
    by (simp_all add: is_space_def ch_def)
  have "pieces ((a @ [ch CHR '' '']) @ ch CHR ''-'' # ch CHR '' '' # b)
          = [trim (a @ [ch CHR '' '']), trim (ch CHR '' '' # b)]"
    using assms(1,2) sp(2) by (intro pieces_range) auto
  then have p: "pieces (a @ str '' - '' @ b) = [a, b]"
    using assms(3,4) sp(1) by (simp add: range_literal trim_space_Cons trim_space_snoc)
  from formatDate_unrecognized[of "a @ str '' - '' @ b" pf] assms(5,6)
  show ?thesis by (simp add: p)
qed

text \<open>
  Against C1 as stated: \<^verbatim>\<open>formatDate\<close> throws a TypeError on \<^verbatim>\<open>-\<close> (an empty side of a
  range has no first part), and an input that is not recognized as a date is not always
  returned unchanged: \<^verbatim>\<open>TBA-TBD\<close> comes back as \<^verbatim>\<open>TBA - TBD\<close>.
\<close>

theorem formatDate_passthrough_counterexample:
  "formatDate (example_platform 2024) (str ''-'') = Inl TypeError
   \<and> formatDate (example_platform 2024) (str ''TBA-TBD'') = Inr (str ''TBA - TBD'')"
  by code_simp

text \<open>
  C1, amended. The pieces of an input are its parts between the \<^verbatim>\<open>-\<close>, each trimmed.
  \<^verbatim>\<open>formatDate\<close> returns normally on every input each of whose pieces has a first part (a
  run of characters other than commas and white space) and is more than a weekday
  abbreviation alone. It returns its input unchanged when the input is empty or white
  space only, or is the marker \<^verbatim>\<open>mockValue\<close>. When every piece is unrecognized as a date
  (its first part is neither a weekday abbreviation nor starts with a month abbreviation,
  or the part in the place of the month resolves to no month), it returns the pieces as
  they are: the only piece when there is one, the two joined by \<^verbatim>\<open>" - "\<close> when there are
  two, and the first one otherwise. So an unrecognized input is returned unchanged when it
  has no \<^verbatim>\<open>-\<close> and no white space around it, or when it consists of two such sides around
  \<^verbatim>\<open>" - "\<close>. In particular \<^verbatim>\<open>formatDate("") == ""\<close> and
  \<^verbatim>\<open>formatDate("Invalid Date") == "Invalid Date"\<close>.
\<close>

theorem formatDate_passthrough:
  "((\<forall>d\<in>set (pieces s). has_first_part d) \<longrightarrow> (\<exists>r. formatDate pf s = Inr r))
   \<and> (trim s = [] \<or> s = str ''mockValue'' \<longrightarrow> formatDate pf s = Inr s)
   \<and> ((\<forall>d\<in>set (pieces s). unrecognized pf d) \<longrightarrow>
        formatDate pf s
          = Inr (if length (pieces s) = 2 then join (str '' - '') (pieces s)
                 else hd (pieces s)))
   \<and> (ch CHR ''-'' \<notin> set s \<and> trim s = s \<and> unrecognized pf s \<longrightarrow> formatDate pf s = Inr s)
   \<and> (ch CHR ''-'' \<notin> set a \<and> ch CHR ''-'' \<notin> set b \<and> trim a = a \<and> trim b = b
        \<and> unrecognized pf a \<and> unrecognized pf b \<longrightarrow>
        formatDate pf (a @ str '' - '' @ b) = Inr (a @ str '' - '' @ b))
   \<and> formatDate pf [] = Inr []
   \<and> formatDate pf (str ''Invalid Date'') = Inr (str ''Invalid Date'')"
proof -
  have returns: "(\<forall>d\<in>set (pieces s). has_first_part d) \<longrightarrow> (\<exists>r. formatDate pf s = Inr r)"
    using formatDate_returns by blast
  have marker: "trim s = [] \<or> s = str ''mockValue'' \<longrightarrow> formatDate pf s = Inr s"
    by (simp add: formatDate_def)
  have general: "(\<forall>d\<in>set (pieces s). unrecognized pf d) \<longrightarrow>
        formatDate pf s
          = Inr (if length (pieces s) = 2 then join (str '' - '') (pieces s)
                 else hd (pieces s))"
    using formatDate_unrecognized by blast
  have single: "formatDate pf t = Inr t"
    if "ch CHR ''-'' \<notin> set t" "trim t = t" "unrecognized pf t" for t
    using formatDate_unrecognized[of t pf] that by (simp add: pieces_single)
  have range: "ch CHR ''-'' \<notin> set a \<and> ch CHR ''-'' \<notin> set b \<and> trim a = a \<and> trim b = b
        \<and> unrecognized pf a \<and> unrecognized pf b \<longrightarrow>
        formatDate pf (a @ str '' - '' @ b) = Inr (a @ str '' - '' @ b)"
    using formatDate_unrecognized_range by blast
  have p: "parts_of (str ''Invalid Date'') = [str ''Invalid'', str ''Date'']" by code_simp
  have t: "trim (str ''Invalid Date'') = str ''Invalid Date''" by code_simp
  have "unrecognized pf (str ''Invalid Date'')"
    unfolding unrecognized_def p by (simp add: days_def months_def str_def ch_def)
  moreover have "ch CHR ''-'' \<notin> set (str ''Invalid Date'')"
    by (simp add: str_def ch_def)
  ultimately have invalid: "formatDate pf (str ''Invalid Date'') = Inr (str ''Invalid Date'')"
    using t by (intro single)
  show ?thesis
    using returns marker general single[of s] range formatDate_empty[of pf] invalid by blast
qed

theorem formatDate_passthrough_witness:
  "formatDate (example_platform 2024) ([0x0020, 0x00A0, 0x3000]) = Inr [0x0020, 0x00A0, 0x3000]
   \<and> formatDate (example_platform 2024) (str ''Sun, Foo 4'') = Inr (str ''Sun, Foo 4'')
   \<and> formatDate (example_platform 2024) (str ''TBA - TBD'') = Inr (str ''TBA - TBD'')
   \<and> formatDate (example_platform 2024) (str '' TBA-TBD-TBC '') = Inr (str ''TBA'')
   \<and> (\<exists>r. formatDate (example_platform 2024) (str ''Sun Jul - Jul'') = Inr r)"
proof -
  let ?pf = "example_platform 2024"
  have a: "trim [0x0020, 0x00A0, 0x3000] = []" by code_simp
  have b: "ch CHR ''-'' \<notin> set (str ''Sun, Foo 4'') \<and> trim (str ''Sun, Foo 4'') = str ''Sun, Foo 4''
      \<and> unrecognized ?pf (str ''Sun, Foo 4'')"
    by code_simp
  have c: "ch CHR ''-'' \<notin> set (str ''TBA'') \<and> ch CHR ''-'' \<notin> set (str ''TBD'')
      \<and> trim (str ''TBA'') = str ''TBA'' \<and> trim (str ''TBD'') = str ''TBD''
      \<and> unrecognized ?pf (str ''TBA'') \<and> unrecognized ?pf (str ''TBD'')"
    by code_simp
  have d: "pieces (str '' TBA-TBD-TBC '') = [str ''TBA'', str ''TBD'', str ''TBC'']"
    by code_simp
  have d': "unrecognized ?pf (str ''TBA'') \<and> unrecognized ?pf (str ''TBD'')
      \<and> unrecognized ?pf (str ''TBC'')"
    by code_simp
  have e: "pieces (str ''Sun Jul - Jul'') = [str ''Sun Jul'', str ''Jul'']" by code_simp
  have e': "has_first_part (str ''Sun Jul'') \<and> has_first_part (str ''Jul'')" by code_simp
  from formatDate_passthrough[of "[0x0020, 0x00A0, 0x3000]" ?pf] a
  have "formatDate ?pf [0x0020, 0x00A0, 0x3000] = Inr [0x0020, 0x00A0, 0x3000]" by blast
  moreover from formatDate_passthrough[of "str ''Sun, Foo 4''" ?pf] b
  have "formatDate ?pf (str ''Sun, Foo 4'') = Inr (str ''Sun, Foo 4'')" by blast
  moreover from formatDate_passthrough[of _ ?pf "str ''TBA''" "str ''TBD''"] c
  have "formatDate ?pf (str ''TBA'' @ str '' - '' @ str ''TBD'')
          = Inr (str ''TBA'' @ str '' - '' @ str ''TBD'')" by blast
  then have "formatDate ?pf (str ''TBA - TBD'') = Inr (str ''TBA - TBD'')"
    by (simp add: str_def)
  moreover from formatDate_passthrough[of "str '' TBA-TBD-TBC ''" ?pf] d d'
  have "formatDate ?pf (str '' TBA-TBD-TBC '') = Inr (str ''TBA'')" by simp
  moreover from formatDate_passthrough[of "str ''Sun Jul - Jul''" ?pf] e e'
  have "\<exists>r. formatDate ?pf (str ''Sun Jul - Jul'') = Inr r" by simp
  ultimately show ?thesis by blast
qed

subsection \<open>\<^verbatim>\<open>formatDate\<close> on single dates\<close>

lemma formatDate_single:
  assumes "ch CHR ''-'' \<notin> set s" and "trim s \<noteq> []"
  shows "formatDate pf s = parseSingleDate pf (trim s)"
proof (cases "s = str ''mockValue''")
  case True
  have p: "parts_of (str ''mockValue'') = [str ''mockValue'']" by code_simp
  have t: "trim (str ''mockValue'') = str ''mockValue''" by code_simp
  have "unrecognized pf (str ''mockValue'')"
    unfolding unrecognized_def p by (simp add: days_def months_def str_def ch_def)
  from parseSingleDate_unrecognized[OF this] True t show ?thesis
    by (simp add: formatDate_def)
next
  case False
  with assms show ?thesis
    by (cases "parseSingleDate pf (trim s)") (simp_all add: formatDate_def pieces_single)
qed

lemma day_names:
  assumes "w \<in> set days"
  shows "w \<noteq> []" "\<forall>c\<in>set w. \<not> is_separator c" "ch CHR ''-'' \<notin> set w" "length w = 3"
    "\<not> is_space (hd w)" "ch CHR '','' \<notin> set w"
  using assms by (auto simp: days_def is_separator_def is_space_def str_def ch_def)

lemma month_names:
  assumes "m \<in> set months"
  shows "m \<noteq> []" "\<forall>c\<in>set m. \<not> is_separator c" "ch CHR ''-'' \<notin> set m" "m \<notin> set days"
  using assms by (auto simp: months_def days_def is_separator_def is_space_def str_def ch_def)

lemma month_names_more:
  assumes "m \<in> set months"
  shows "\<not> is_space (hd m)" "take 3 m = m"
  using assms by (auto simp: months_def is_space_def str_def ch_def)

lemma month_prefix_not_day: "take 3 mo \<in> set months \<Longrightarrow> mo \<notin> set days"
  by (auto simp: months_def days_def str_def ch_def)

lemma parseSingleDate_month_first:
  assumes "parts_of s = mo # dy # rest" and "take 3 mo \<in> set months"
  shows "parseSingleDate pf s = format_fields pf s (Some mo) (Some dy) (nth_opt rest 0)"
  using assms month_prefix_not_day[OF assms(2)]
  by (simp add: parseSingleDate_def array_includes_def numeral_2_eq_2)

lemma parseSingleDate_weekday_first:
  assumes "parts_of s = w # mo # dy # rest" and "w \<in> set days"
  shows "parseSingleDate pf s = format_fields pf s (Some mo) (Some dy) (nth_opt rest 0)"
  using assms
  by (simp add: parseSingleDate_def array_includes_def numeral_2_eq_2 numeral_3_eq_3)

lemma findIndex_range: "findIndex P xs = - 1 \<or> (0 \<le> findIndex P xs \<and> findIndex P xs < int (length xs))"
  by (induction xs) (auto simp: Let_def)

lemma month_nth: "0 \<le> mi \<Longrightarrow> mi \<le> 11 \<Longrightarrow> months ! nat mi \<in> set months"
  by (rule nth_mem) (simp add: months_def)

lemma day_nth: "0 \<le> wd \<Longrightarrow> wd < 7 \<Longrightarrow> days ! nat wd \<in> set days"
  by (rule nth_mem) (simp add: days_def)

lemma findIndex_month:
  assumes "lowercases_ascii pf" and "0 \<le> mi" "mi \<le> 11"
  shows "months_findIndex pf (months ! nat mi) = mi"
proof -
  have "months_findIndex (example_platform 0) (months ! nat mi) = mi"
    using month_index_cases[OF assms(2,3)]
    by (elim disjE)
       (simp_all add: months_findIndex_def months_def example_platform_def str_def ch_def
          ascii_lower_def)
  with months_findIndex_conforming[OF assms(1) months_ascii[OF month_nth[OF assms(2,3)]], of 0]
  show ?thesis by simp
qed

lemma parseInt_nonneg: "parseInt v = Some i \<Longrightarrow> 0 \<le> i"
  by (auto simp: parseInt_def Let_def split: option.splits if_splits)

lemma Number_toString_nonneg: "0 \<le> i \<Longrightarrow> Number_toString (Some i) = decimal (nat i)"
  by (simp add: Number_toString_def)

lemma format_fields_valid:
  assumes mi: "months_findIndex pf mo = mi" "mi \<noteq> - 1"
    and dd: "parseInt (Some (filter is_digit dy)) = Some dd"
    and yy: "parseInt (Some (filter is_digit
               (if truthy yopt then the yopt else Number_toString (Some (currentYear pf)))))
             = Some yy"
    and yr: "yr = (if yy \<le> 99 then 1900 + yy else yy)"
    and ok: "1 \<le> dd" "dd \<le> DaysInMonth yr mi" "MakeDay yr mi dd \<le> 100000000"
  shows "format_fields pf s (Some mo) (Some dy) yopt
           = Inr (canonical_date (WeekDay (MakeDay yr mi dd * msPerDay)) mi dd yr)"
    and "100 \<le> yr" and "0 \<le> mi" and "mi \<le> 11"
proof -
  from findIndex_range[of "\<lambda>m. toLowerCase pf m = take 3 (toLowerCase pf mo)" months] mi
  show range: "0 \<le> mi" "mi \<le> 11" by (simp_all add: months_def months_findIndex_def)
  from parseInt_nonneg[OF yy] have yy0: "0 \<le> yy" .
  with yr show yr100: "100 \<le> yr" by (simp split: if_splits)
  let ?n = "MakeDay yr mi dd"
  have "DayFromYear 100 \<le> DayFromYear yr" using yr100 by (rule DayFromYear_mono)
  moreover have "DayFromYear yr \<le> ?n" using MakeDay_in_year[OF range ok(1,2)] by simp
  ultimately have low: "- 100000000 \<le> ?n" by (simp add: DayFromYear_def)
  have clip: "TimeClip (?n * msPerDay) = Some (?n * msPerDay)"
    using low ok(3) by (simp add: TimeClip_def msPerDay_def abs_le_iff)
  have dateObj: "Date_new (Some yy) mi (Some dd) = Some (?n * msPerDay)"
    using yy0 yr clip by (simp add: Date_new_def)
  note f = Date_fields[OF range ok(1,2)]
  show "format_fields pf s (Some mo) (Some dy) yopt
           = Inr (canonical_date (WeekDay (?n * msPerDay)) mi dd yr)"
    using mi dd yy dateObj f ok(1) yr100 WeekDay_range[of "?n * msPerDay"]
    by (simp add: format_fields_def Let_def getDay_def getDate_def getFullYear_def
        canonical_date_def Number_toString_nonneg)
qed

lemma separators: "is_separator (ch CHR '','')" "is_separator (ch CHR '' '')"
  by (simp_all add: is_separator_def is_space_def ch_def)

lemma decimal_chars:
  "\<forall>c\<in>set (decimal k). is_digit c" "decimal k \<noteq> []"
  "\<forall>c\<in>set (decimal k). \<not> is_separator c" "ch CHR ''-'' \<notin> set (decimal k)"
  "\<not> is_space (last (decimal k))"
proof -
  show dig: "\<forall>c\<in>set (decimal k). is_digit c" and ne: "decimal k \<noteq> []"
    using decimal_digits[of k] by (simp_all add: list_all_iff)
  show "\<forall>c\<in>set (decimal k). \<not> is_separator c" "ch CHR ''-'' \<notin> set (decimal k)"
    "\<not> is_space (last (decimal k))"
    using dig ne digit_not_separator by (auto simp: last_in_set)
qed

lemma canonical_date_shape:
  assumes "0 \<le> wd" "wd < 7" "0 \<le> mi" "mi \<le> 11"
  shows "parts_of (canonical_date wd mi dd yr)
           = [days ! nat wd, months ! nat mi, decimal (nat dd), decimal (nat yr)]"
    and "trim (canonical_date wd mi dd yr) = canonical_date wd mi dd yr"
    and "ch CHR ''-'' \<notin> set (canonical_date wd mi dd yr)"
    and "take 3 (canonical_date wd mi dd yr) = days ! nat wd"
proof -
  let ?W = "days ! nat wd" and ?M = "months ! nat mi"
  let ?D = "decimal (nat dd)" and ?Y = "decimal (nat yr)"
  note W = day_names[OF day_nth[OF assms(1,2)]]
  note M = month_names[OF month_nth[OF assms(3,4)]]
  note dig = decimal_chars(1,2)
  note D = decimal_chars(3,4,5)
  note sep = separators
  have c: "canonical_date wd mi dd yr
      = ?W @ ch CHR '','' # ch CHR '' '' # ?M @ ch CHR '' '' # ?D @ ch CHR '','' # ch CHR '' '' # ?Y"
    by (simp add: canonical_date_def str_def)
  show "parts_of (canonical_date wd mi dd yr) = [?W, ?M, ?D, ?Y]"
    unfolding c
    by (simp add: parts_of_word_sep[OF W(1,2) sep(1)] parts_of_separator[OF sep(2)]
        parts_of_word_sep[OF M(1,2) sep(2)] parts_of_word_sep[OF dig(2) D(1) sep(1)]
        parts_of_word_end[OF dig(2) D(1)])
  have "hd (canonical_date wd mi dd yr) = hd ?W" using W(1) by (simp add: c)
  moreover have "last (canonical_date wd mi dd yr) = last ?Y" using dig(2) by (simp add: c)
  ultimately show "trim (canonical_date wd mi dd yr) = canonical_date wd mi dd yr"
    using W(5) D(3) by (intro trim_id) (simp_all add: c)
  show "ch CHR ''-'' \<notin> set (canonical_date wd mi dd yr)"
    using W(3) M(3) D(2) by (simp add: c ch_def)
  show "take 3 (canonical_date wd mi dd yr) = ?W"
    using W(4) by (simp add: c)
qed

lemma parseSingleDate_canonical:
  assumes low: "lowercases_ascii pf"
    and range: "0 \<le> mi" "mi \<le> 11"
    and ok: "1 \<le> dd" "dd \<le> DaysInMonth yr mi" "MakeDay yr mi dd \<le> 100000000"
    and yr: "100 \<le> yr"
    and wd: "wd = WeekDay (MakeDay yr mi dd * msPerDay)"
  shows "parseSingleDate pf (canonical_date wd mi dd yr) = Inr (canonical_date wd mi dd yr)"
proof -
  have w: "0 \<le> wd" "wd < 7" using WeekDay_range wd by simp_all
  note sh = canonical_date_shape[OF w range, of dd yr]
  have "parseSingleDate pf (canonical_date wd mi dd yr)
      = format_fields pf (canonical_date wd mi dd yr) (Some (months ! nat mi))
          (Some (decimal (nat dd))) (nth_opt [decimal (nat yr)] 0)"
    by (rule parseSingleDate_weekday_first[OF sh(1) day_nth[OF w]])
  also have "\<dots> = Inr (canonical_date (WeekDay (MakeDay yr mi dd * msPerDay)) mi dd yr)"
  proof (rule format_fields_valid(1))
    show "months_findIndex pf (months ! nat mi) = mi"
      by (rule findIndex_month[OF low range])
    show "mi \<noteq> - 1" using range by simp
    show "parseInt (Some (filter is_digit (decimal (nat dd)))) = Some dd"
      using ok(1) by (simp add: filter_digits_decimal parseInt_decimal)
    show "parseInt (Some (filter is_digit
            (if truthy (nth_opt [decimal (nat yr)] 0) then the (nth_opt [decimal (nat yr)] 0)
             else Number_toString (Some (currentYear pf))))) = Some yr"
      using yr decimal_digits[of "nat yr"]
      by (simp add: truthy_def filter_digits_decimal parseInt_decimal)
    show "yr = (if yr \<le> 99 then 1900 + yr else yr)" using yr by simp
  qed (rule ok)+
  finally show ?thesis using wd by simp
qed

lemma recognized_date_normal_form:
  assumes v: "recognized_date pf D"
  shows "\<exists>wd mi dd yr.
           0 \<le> wd \<and> wd < 7 \<and> 0 \<le> mi \<and> mi \<le> 11 \<and> 1 \<le> dd \<and> dd \<le> DaysInMonth yr mi
           \<and> 100 \<le> yr \<and> MakeDay yr mi dd \<le> 100000000
           \<and> wd = WeekDay (MakeDay yr mi dd * msPerDay)
           \<and> formatDate pf D = Inr (canonical_date wd mi dd yr)"
proof -
  define parts where "parts = parts_of (trim D)"
  define wk where "wk = array_includes days (nth_opt parts 0)"
  define fields where "fields = (if wk then tl parts else parts)"
  from v have nodash: "ch CHR ''-'' \<notin> set D"
    by (simp add: recognized_date_def)
  from v obtain mo dy rest where f: "fields = mo # dy # rest"
    and path: "wk \<or> take 3 mo \<in> set months"
    and body: "let mi = months_findIndex pf mo
               in mi \<noteq> - 1 \<and>
                  (case (parseInt (Some (filter is_digit dy)),
                         parseInt (Some (filter is_digit
                            (case rest of
                               [] \<Rightarrow> Number_toString (Some (currentYear pf))
                             | y # _ \<Rightarrow> y)))) of
                     (Some dd, Some yy) \<Rightarrow>
                       (let yr = (if yy \<le> 99 then 1900 + yy else yy)
                        in 1 \<le> dd \<and> dd \<le> DaysInMonth yr mi \<and> MakeDay yr mi dd \<le> 100000000)
                   | _ \<Rightarrow> False)"
    unfolding recognized_date_def parts_def[symmetric] Let_def wk_def[symmetric]
      fields_def[symmetric]
    by (auto split: list.splits)
  define mi where "mi = months_findIndex pf mo"
  define ystr where
    "ystr = (case rest of [] \<Rightarrow> Number_toString (Some (currentYear pf)) | y # _ \<Rightarrow> y)"
  from body obtain dd yy where mi1: "mi \<noteq> - 1"
    and dd: "parseInt (Some (filter is_digit dy)) = Some dd"
    and yy: "parseInt (Some (filter is_digit ystr)) = Some yy"
    and ok: "1 \<le> dd" "dd \<le> DaysInMonth (if yy \<le> 99 then 1900 + yy else yy) mi"
      "MakeDay (if yy \<le> 99 then 1900 + yy else yy) mi dd \<le> 100000000"
    unfolding mi_def[symmetric] ystr_def[symmetric] Let_def
    by (auto split: option.splits)
  define yr where "yr = (if yy \<le> 99 then 1900 + yy else yy)"
  have nonempty: "[] \<notin> set parts" by (simp add: parts_def parts_of_nonempty)
  have "set fields \<subseteq> set parts"
    by (cases parts) (auto simp: fields_def)
  with f have rest_parts: "set rest \<subseteq> set parts" by auto
  have ystr': "ystr = (if truthy (nth_opt rest 0) then the (nth_opt rest 0)
                       else Number_toString (Some (currentYear pf)))"
    using nonempty rest_parts by (cases rest) (auto simp: ystr_def truthy_def)
  have first: "parseSingleDate pf (trim D)
      = format_fields pf (trim D) (Some mo) (Some dy) (nth_opt rest 0)"
  proof (cases wk)
    case True
    then obtain w where w: "nth_opt parts 0 = Some w" "w \<in> set days"
      by (auto simp: wk_def array_includes_def split: option.splits)
    then have "parts = w # tl parts" by (cases parts) simp_all
    with True f have "parts_of (trim D) = w # mo # dy # rest" by (simp add: fields_def parts_def)
    from parseSingleDate_weekday_first[OF this w(2)] show ?thesis .
  next
    case False
    with f path have "parts_of (trim D) = mo # dy # rest" "take 3 mo \<in> set months"
      by (simp_all add: fields_def parts_def)
    from parseSingleDate_month_first[OF this] show ?thesis .
  qed
  note ff = format_fields_valid[OF mi_def[symmetric] mi1 dd yy[unfolded ystr'] yr_def
      ok[folded yr_def]]
  have "trim D \<noteq> []" using f by (auto simp: fields_def parts_def parts_of_Nil split: if_splits)
  from formatDate_single[OF nodash this] first ff(1)[where s = "trim D"]
  have res: "formatDate pf D = Inr (canonical_date (WeekDay (MakeDay yr mi dd * msPerDay)) mi dd yr)"
    by simp
  show ?thesis
    using res ff(2,3,4) ok[folded yr_def] WeekDay_range[of "MakeDay yr mi dd * msPerDay"]
    by blast
qed

text \<open>
  Every string \<^verbatim>\<open>Mon D, YYYY\<close> of a date that exists in the calendar, from the year 100 on
  and within the range of \<^verbatim>\<open>Date\<close>, is recognized.
\<close>

lemma recognized_date_month_day_year:
  assumes low: "lowercases_ascii pf"
    and range: "0 \<le> mi" "mi \<le> 11"
    and ok: "1 \<le> dd" "dd \<le> DaysInMonth yr mi" "MakeDay yr mi dd \<le> 100000000"
    and yr: "100 \<le> yr"
  shows "recognized_date pf
           (months ! nat mi @ str '' '' @ decimal (nat dd) @ str '', '' @ decimal (nat yr))"
proof -
  let ?M = "months ! nat mi" and ?D = "decimal (nat dd)" and ?Y = "decimal (nat yr)"
  let ?s = "?M @ ch CHR '' '' # ?D @ ch CHR '','' # ch CHR '' '' # ?Y"
  note M = month_names[OF month_nth[OF range]] month_names_more[OF month_nth[OF range]]
  note dig = decimal_chars(1,2)
  note D = decimal_chars(3,4,5)
  note sep = separators
  have parts: "parts_of ?s = [?M, ?D, ?Y]"
    by (simp add: parts_of_word_sep[OF M(1,2) sep(2)] parts_of_word_sep[OF dig(2) D(1) sep(1)]
        parts_of_separator[OF sep(2)] parts_of_word_end[OF dig(2) D(1)])
  have "hd ?s = hd ?M" using M(1) by simp
  moreover have "last ?s = last ?Y" using dig(2) by simp
  ultimately have tr: "trim ?s = ?s" using M(5) D(3) by (intro trim_id) simp_all
  have nodash: "ch CHR ''-'' \<notin> set ?s" using M(3) D(2) by (simp add: ch_def)
  have mi: "months_findIndex pf ?M = mi"
    by (rule findIndex_month[OF low range])
  have dd: "parseInt (Some (filter is_digit ?D)) = Some dd"
    using ok(1) by (simp add: filter_digits_decimal parseInt_decimal)
  have yy: "parseInt (Some (filter is_digit ?Y)) = Some yr"
    using yr by (simp add: filter_digits_decimal parseInt_decimal)
  have "recognized_date pf ?s"
    unfolding recognized_date_def tr parts
    using nodash M(4,6) month_nth[OF range] mi dd yy range ok yr
    by (simp add: array_includes_def Let_def del: filter.simps)
  then show ?thesis by (simp add: str_def)
qed

text \<open>
  For every date that \<^verbatim>\<open>parseSingleDate\<close> recognizes, \<^verbatim>\<open>formatDate\<close> returns normally a string
  in the canonical form, which begins with one of the seven three-letter weekday
  abbreviations, and \<^verbatim>\<open>formatDate\<close> applied to that result returns it unchanged.
\<close>

lemma formatDate_idempotent_on_recognized:
  assumes "lowercases_ascii pf" and "recognized_date pf D"
  shows "\<exists>r. formatDate pf D = Inr r \<and> take 3 r \<in> set days \<and> formatDate pf r = Inr r
           \<and> (\<exists>wd mi dd yr. r = canonical_date wd mi dd yr)"
proof -
  from recognized_date_normal_form[OF assms(2)] obtain wd mi dd yr where
    w: "0 \<le> wd" "wd < 7" and m: "0 \<le> mi" "mi \<le> 11"
    and ok: "1 \<le> dd" "dd \<le> DaysInMonth yr mi" "MakeDay yr mi dd \<le> 100000000"
    and yr: "100 \<le> yr" and wd: "wd = WeekDay (MakeDay yr mi dd * msPerDay)"
    and res: "formatDate pf D = Inr (canonical_date wd mi dd yr)"
    by blast
  let ?r = "canonical_date wd mi dd yr"
  note sh = canonical_date_shape[OF w m, of dd yr]
  have "take 3 ?r \<in> set days" using sh(4) day_nth[OF w] by simp
  moreover have "?r \<noteq> []" using sh(1) by (auto simp: parts_of_Nil)
  with sh(2) have "trim ?r \<noteq> []" by simp
  from formatDate_single[OF sh(3) this] sh(2) parseSingleDate_canonical[OF assms(1) m ok yr wd]
  have "formatDate pf ?r = Inr ?r" by simp
  ultimately show ?thesis using res by blast
qed

text \<open>
  An input whose day does not exist in its month is not such a date: \<^verbatim>\<open>Date\<close> rolls the
  day over into the next month, the result keeps the month name of the input, and a
  second normalisation changes the weekday.
\<close>

lemma formatDate_rollover:
  "formatDate (example_platform 2024) (str ''Jul 32, 2024'') = Inr (str ''Thu, Jul 1, 2024'')
   \<and> formatDate (example_platform 2024) (str ''Thu, Jul 1, 2024'')
       = Inr (str ''Mon, Jul 1, 2024'')
   \<and> \<not> recognized_date (example_platform 2024) (str ''Jul 32, 2024'')"
  by code_simp

subsection \<open>Dates with a year do not read the clock\<close>

lemma parseSingleDate_given_year:
  assumes "lowercases_ascii pf" and "\<forall>c\<in>set d. c < 0x80"
    and "parts_of d = p0 # p1 # p2 # rest" and "p0 \<in> set days \<longrightarrow> rest \<noteq> []"
  shows "parseSingleDate pf d = parseSingleDate (example_platform 0) d"
proof -
  have ne: "p2 \<noteq> []" "\<forall>y ys. rest = y # ys \<longrightarrow> y \<noteq> []"
    using parts_of_nonempty[of d] assms(3) by auto
  have "parseSingleDate (example_platform (currentYear pf)) d
          = parseSingleDate (example_platform 0) d"
  proof (cases "p0 \<in> set days")
    case True
    with assms(4) obtain y ys where rest: "rest = y # ys" by (cases rest) auto
    with ne have "y \<noteq> []" by simp
    with True assms(3) rest show ?thesis
      by (simp add: parseSingleDate_def array_includes_def numeral_2_eq_2 numeral_3_eq_3
          format_fields_def Let_def months_findIndex_def example_platform_def)
  next
    case False
    with assms(3) ne(1) show ?thesis
      by (simp add: parseSingleDate_def array_includes_def numeral_2_eq_2
          format_fields_def Let_def months_findIndex_def example_platform_def)
  qed
  with parseSingleDate_conforming[OF assms(1,2)] show ?thesis by simp
qed

lemma formatDate_given_year:
  assumes "lowercases_ascii pf"
    and "(\<forall>c\<in>set s. c < 0x80) \<and> ch CHR ''-'' \<notin> set s
         \<and> (case parts_of (trim s) of
              p0 # p1 # p2 # rest \<Rightarrow> p0 \<in> set days \<longrightarrow> rest \<noteq> []
            | _ \<Rightarrow> False)"
  shows "formatDate pf s = formatDate (example_platform 0) s"
proof -
  from assms(2) obtain p0 p1 p2 rest where p: "parts_of (trim s) = p0 # p1 # p2 # rest"
    and r: "p0 \<in> set days \<longrightarrow> rest \<noteq> []"
    by (auto split: list.splits)
  then have ne: "trim s \<noteq> []" by (auto simp: parts_of_Nil)
  have a: "\<forall>c\<in>set (trim s). c < 0x80" using assms(2) trim_chars[of s] by blast
  from formatDate_single[of s, OF _ ne] assms(2)
    parseSingleDate_given_year[OF assms(1) a p r]
  show ?thesis by simp
qed

text \<open>
  C3 (the code departs from the claim). The claim: a single date whose first token
  starts with a month abbreviation in any letter case is normalised, the month being
  resolved case-insensitively. The code compares the first three characters of the first
  token with the month abbreviations case-sensitively before it resolves the month
  case-insensitively, so \<^verbatim>\<open>jul 4, 2024\<close> is returned unchanged as unrecognized, while the
  same month after a weekday, \<^verbatim>\<open>Thu, jul 4, 2024\<close>, and the capitalised \<^verbatim>\<open>Jul 4, 2024\<close> are
  normalised.
\<close>

theorem formatDate_lowercase_month:
  "formatDate pf (str ''jul 4, 2024'') = Inr (str ''jul 4, 2024'')
   \<and> (lowercases_ascii pf \<longrightarrow>
        formatDate pf (str ''Thu, jul 4, 2024'') = Inr (str ''Thu, Jul 4, 2024'')
        \<and> formatDate pf (str ''Jul 4, 2024'') = Inr (str ''Thu, Jul 4, 2024''))"
proof -
  have p: "parts_of (str ''jul 4, 2024'') = [str ''jul'', str ''4'', str ''2024'']" by code_simp
  have t: "trim (str ''jul 4, 2024'') = str ''jul 4, 2024''" by code_simp
  have n: "ch CHR ''-'' \<notin> set (str ''jul 4, 2024'')" by code_simp
  have "unrecognized pf (str ''jul 4, 2024'')"
    unfolding unrecognized_def p by (simp add: days_def months_def str_def ch_def)
  from formatDate_unrecognized[of "str ''jul 4, 2024''" pf] this
  have first: "formatDate pf (str ''jul 4, 2024'') = Inr (str ''jul 4, 2024'')"
    by (simp add: pieces_single[OF n] t)
  have a: "(\<forall>c\<in>set (str ''Thu, jul 4, 2024''). c < 0x80)
         \<and> ch CHR ''-'' \<notin> set (str ''Thu, jul 4, 2024'')
         \<and> (case parts_of (trim (str ''Thu, jul 4, 2024'')) of
              p0 # p1 # p2 # rest \<Rightarrow> p0 \<in> set days \<longrightarrow> rest \<noteq> []
            | _ \<Rightarrow> False)"
    by code_simp
  have b: "(\<forall>c\<in>set (str ''Jul 4, 2024''). c < 0x80)
         \<and> ch CHR ''-'' \<notin> set (str ''Jul 4, 2024'')
         \<and> (case parts_of (trim (str ''Jul 4, 2024'')) of
              p0 # p1 # p2 # rest \<Rightarrow> p0 \<in> set days \<longrightarrow> rest \<noteq> []
            | _ \<Rightarrow> False)"
    by code_simp
  have ea: "formatDate (example_platform 0) (str ''Thu, jul 4, 2024'')
              = Inr (str ''Thu, Jul 4, 2024'')"
    by code_simp
  have eb: "formatDate (example_platform 0) (str ''Jul 4, 2024'') = Inr (str ''Thu, Jul 4, 2024'')"
    by code_simp
  show ?thesis
    using first formatDate_given_year[OF _ a] formatDate_given_year[OF _ b] ea eb by simp
qed

theorem formatDate_lowercase_month_witness:
  "lowercases_ascii (example_platform 2024)
   \<and> formatDate (example_platform 2024) (str ''jul 4, 2024'') = Inr (str ''jul 4, 2024'')
   \<and> formatDate (example_platform 2024) (str ''Thu, jul 4, 2024'') = Inr (str ''Thu, Jul 4, 2024'')
   \<and> formatDate (example_platform 2024) (str ''Jul 4, 2024'') = Inr (str ''Thu, Jul 4, 2024'')"
  using formatDate_lowercase_month[of "example_platform 2024"]
    example_platform_lowercases[of 2024]
  by simp

text \<open>
  C4 (the code departs from the claim). The claim: for every valid single date,
  \<^verbatim>\<open>formatDate\<close> returns a string that begins with a weekday abbreviation, and is idempotent
  on it. \<^verbatim>\<open>jul 4, 2024\<close> is a valid single date, whose month the program's own lookup
  resolves to July; the case-sensitive test before the lookup makes \<^verbatim>\<open>formatDate\<close> return
  it unchanged, and it does not begin with a weekday abbreviation. The capitalised
  \<^verbatim>\<open>Jul 4, 2024\<close> becomes \<^verbatim>\<open>Thu, Jul 4, 2024\<close>, on which \<^verbatim>\<open>formatDate\<close> is the identity.
\<close>

theorem formatDate_valid_date_returned_unchanged:
  "formatDate pf (str ''jul 4, 2024'') = Inr (str ''jul 4, 2024'')
   \<and> take 3 (str ''jul 4, 2024'') \<notin> set days
   \<and> (lowercases_ascii pf \<longrightarrow>
        months_findIndex pf (str ''jul'') = 6
        \<and> formatDate pf (str ''Jul 4, 2024'') = Inr (str ''Thu, Jul 4, 2024'')
        \<and> formatDate pf (str ''Thu, Jul 4, 2024'') = Inr (str ''Thu, Jul 4, 2024''))"
proof -
  have p: "parts_of (str ''jul 4, 2024'') = [str ''jul'', str ''4'', str ''2024'']" by code_simp
  have t: "trim (str ''jul 4, 2024'') = str ''jul 4, 2024''" by code_simp
  have n: "ch CHR ''-'' \<notin> set (str ''jul 4, 2024'')" by code_simp
  have "unrecognized pf (str ''jul 4, 2024'')"
    unfolding unrecognized_def p by (simp add: days_def months_def str_def ch_def)
  from formatDate_unrecognized[of "str ''jul 4, 2024''" pf] this
  have first: "formatDate pf (str ''jul 4, 2024'') = Inr (str ''jul 4, 2024'')"
    by (simp add: pieces_single[OF n] t)
  have second: "take 3 (str ''jul 4, 2024'') \<notin> set days" by code_simp
  have m: "months_findIndex (example_platform 0) (str ''jul'') = 6" by code_simp
  have ascii: "\<forall>c\<in>set (str ''jul''). c < 0x80" by code_simp
  have b: "(\<forall>c\<in>set (str ''Jul 4, 2024''). c < 0x80)
         \<and> ch CHR ''-'' \<notin> set (str ''Jul 4, 2024'')
         \<and> (case parts_of (trim (str ''Jul 4, 2024'')) of
              p0 # p1 # p2 # rest \<Rightarrow> p0 \<in> set days \<longrightarrow> rest \<noteq> []
            | _ \<Rightarrow> False)"
    by code_simp
  have c: "(\<forall>c\<in>set (str ''Thu, Jul 4, 2024''). c < 0x80)
         \<and> ch CHR ''-'' \<notin> set (str ''Thu, Jul 4, 2024'')
         \<and> (case parts_of (trim (str ''Thu, Jul 4, 2024'')) of
              p0 # p1 # p2 # rest \<Rightarrow> p0 \<in> set days \<longrightarrow> rest \<noteq> []
            | _ \<Rightarrow> False)"
    by code_simp
  have eb: "formatDate (example_platform 0) (str ''Jul 4, 2024'') = Inr (str ''Thu, Jul 4, 2024'')"
    by code_simp
  have ec: "formatDate (example_platform 0) (str ''Thu, Jul 4, 2024'')
              = Inr (str ''Thu, Jul 4, 2024'')"
    by code_simp
  show ?thesis
    using first second months_findIndex_conforming[OF _ ascii, of pf 0] m
      formatDate_given_year[OF _ b] formatDate_given_year[OF _ c] eb ec
    by simp
qed

theorem formatDate_valid_date_returned_unchanged_witness:
  "lowercases_ascii (example_platform 2024)
   \<and> formatDate (example_platform 2024) (str ''jul 4, 2024'') = Inr (str ''jul 4, 2024'')
   \<and> months_findIndex (example_platform 2024) (str ''jul'') = 6
   \<and> formatDate (example_platform 2024) (str ''Jul 4, 2024'') = Inr (str ''Thu, Jul 4, 2024'')
   \<and> formatDate (example_platform 2024) (str ''Thu, Jul 4, 2024'')
       = Inr (str ''Thu, Jul 4, 2024'')"
  using formatDate_valid_date_returned_unchanged[of "example_platform 2024"]
    example_platform_lowercases[of 2024]
  by simp

subsection \<open>Ranges\<close>

lemma formatDate_range_join:
  assumes "ch CHR ''-'' \<notin> set a" "ch CHR ''-'' \<notin> set b"
    and "parseSingleDate pf (trim a) = Inr ra" "parseSingleDate pf (trim b) = Inr rb"
  shows "formatDate pf (a @ str ''-'' @ b) = Inr (ra @ str '' - '' @ rb)"
proof -
  have d: "a @ str ''-'' @ b = a @ ch CHR ''-'' # b" by (simp add: str_def)
  have "\<not> is_space (ch CHR ''-'')" by (simp add: is_space_def ch_def)
  then have ne: "trim (a @ ch CHR ''-'' # b) \<noteq> []" by (auto simp: trim_empty_iff)
  have nm: "a @ ch CHR ''-'' # b \<noteq> str ''mockValue''"
  proof
    assume "a @ ch CHR ''-'' # b = str ''mockValue''"
    then have "ch CHR ''-'' \<in> set (str ''mockValue'')"
      by (metis in_set_conv_decomp)
    then show False by (simp add: str_def ch_def)
  qed
  show ?thesis
    unfolding d using ne nm assms(3,4)
    by (simp add: formatDate_def pieces_range[OF assms(1,2)])
qed

lemma Number_toString_nonempty: "Number_toString (Some i) \<noteq> []"
  using decimal_digits by (simp add: Number_toString_def)

lemma format_fields_default_year:
  "format_fields pf d mo dy None
     = format_fields pf d mo dy (Some (Number_toString (Some (currentYear pf))))"
  by (simp add: format_fields_def truthy_def Number_toString_nonempty)

lemma parse_Jul_4:
  assumes "lowercases_ascii pf" and "100 \<le> currentYear pf" "currentYear pf \<le> 275759"
  shows "parseSingleDate pf (str ''Jul 4'')
           = Inr (canonical_date (WeekDay (MakeDay (currentYear pf) 6 4 * msPerDay)) 6 4
                    (currentYear pf))"
proof -
  let ?now = "currentYear pf"
  have p: "parts_of (str ''Jul 4'') = str ''Jul'' # str ''4'' # []" by code_simp
  have m: "take 3 (str ''Jul'') \<in> set months" by code_simp
  have "months_findIndex (example_platform 0) (str ''Jul'') = 6" by code_simp
  moreover have "\<forall>c\<in>set (str ''Jul''). c < 0x80" by code_simp
  ultimately have mi: "months_findIndex pf (str ''Jul'') = 6"
    using months_findIndex_conforming[OF assms(1), of "str ''Jul''" 0] by simp
  have dd: "parseInt (Some (filter is_digit (str ''4''))) = Some 4" by code_simp
  have yy: "parseInt (Some (filter is_digit
             (if truthy (nth_opt [] 0) then the (nth_opt [] 0)
              else Number_toString (Some ?now))))
            = Some ?now"
    using assms(2) by (simp add: Number_toString_nonneg filter_digits_decimal parseInt_decimal)
  have dim: "(4::int) \<le> DaysInMonth ?now 6" by (simp add: DaysInMonth_def)
  have "DayFromYear ?now \<le> DayFromYear 275759" using assms(3) by (rule DayFromYear_mono)
  moreover have "month_start ?now 6 \<le> 182" by (simp add: month_start_def)
  moreover have "MakeDay ?now 6 4 = DayFromYear ?now + month_start ?now 6 + 4 - 1"
    using dim by (intro MakeDay_in_year(1)) simp_all
  ultimately have range: "MakeDay ?now 6 4 \<le> 100000000" by (simp add: DayFromYear_def)
  have yr: "?now = (if ?now \<le> 99 then 1900 + ?now else ?now)" using assms(2) by simp
  have one: "(1::int) \<le> 4" by simp
  have six: "(6::int) \<noteq> - 1" by simp
  from parseSingleDate_month_first[OF p m, of pf]
    format_fields_valid(1)[OF mi six dd yy yr one dim range, of "str ''Jul 4''"]
  show ?thesis by simp
qed

lemma parse_Jul_5_2024:
  assumes "lowercases_ascii pf"
  shows "parseSingleDate pf (str ''Jul 5, 2024'') = Inr (str ''Fri, Jul 5, 2024'')"
proof -
  have p: "parts_of (str ''Jul 5, 2024'') = str ''Jul'' # str ''5'' # str ''2024'' # []"
    by code_simp
  have a: "\<forall>c\<in>set (str ''Jul 5, 2024''). c < 0x80" by code_simp
  have d: "str ''Jul'' \<in> set days \<longrightarrow> ([]::js_string list) \<noteq> []" by code_simp
  have "parseSingleDate (example_platform 0) (str ''Jul 5, 2024'') = Inr (str ''Fri, Jul 5, 2024'')"
    by code_simp
  with parseSingleDate_given_year[OF assms a p d] show ?thesis by simp
qed

text \<open>
  Against C2 as stated: in 2026 the side without a year becomes a date of 2026.
\<close>

theorem formatDate_range_counterexample:
  "formatDate (example_platform 2026) (str ''Jul 4 - Jul 5, 2024'')
     = Inr (str ''Sat, Jul 4, 2026 - Fri, Jul 5, 2024'')"
  by code_simp

text \<open>
  C2, amended. For every input with exactly one \<^verbatim>\<open>-\<close>, when \<^verbatim>\<open>parseSingleDate\<close> returns
  normally on the two trimmed sides, \<^verbatim>\<open>formatDate\<close> returns the two results joined by
  \<^verbatim>\<open>" - "\<close>. A side without a year is normalised as with the current calendar year as its
  year. So \<^verbatim>\<open>formatDate("Jul 4 - Jul 5, 2024")\<close> is, in the current year \<open>Y\<close> (from 100 to
  275759), the canonical form of July 4 of \<open>Y\<close>, then \<^verbatim>\<open>" - Fri, Jul 5, 2024"\<close>; it is
  \<^verbatim>\<open>"Thu, Jul 4, 2024 - Fri, Jul 5, 2024"\<close> when the current year is 2024.
\<close>

theorem formatDate_range:
  "(ch CHR ''-'' \<notin> set a \<and> ch CHR ''-'' \<notin> set b
      \<and> parseSingleDate pf (trim a) = Inr ra \<and> parseSingleDate pf (trim b) = Inr rb
     \<longrightarrow> formatDate pf (a @ str ''-'' @ b) = Inr (ra @ str '' - '' @ rb))
   \<and> format_fields pf d mo dy None
       = format_fields pf d mo dy (Some (Number_toString (Some (currentYear pf))))
   \<and> (lowercases_ascii pf \<and> 100 \<le> currentYear pf \<and> currentYear pf \<le> 275759 \<longrightarrow>
        formatDate pf (str ''Jul 4 - Jul 5, 2024'')
          = Inr (canonical_date (WeekDay (MakeDay (currentYear pf) 6 4 * msPerDay)) 6 4
                   (currentYear pf)
                 @ str '' - Fri, Jul 5, 2024''))
   \<and> (lowercases_ascii pf \<and> currentYear pf = 2024 \<longrightarrow>
        formatDate pf (str ''Jul 4 - Jul 5, 2024'')
          = Inr (str ''Thu, Jul 4, 2024 - Fri, Jul 5, 2024''))"
proof -
  have join: "ch CHR ''-'' \<notin> set a \<and> ch CHR ''-'' \<notin> set b
      \<and> parseSingleDate pf (trim a) = Inr ra \<and> parseSingleDate pf (trim b) = Inr rb
     \<longrightarrow> formatDate pf (a @ str ''-'' @ b) = Inr (ra @ str '' - '' @ rb)"
    using formatDate_range_join by blast
  have any_year: "formatDate pf (str ''Jul 4 - Jul 5, 2024'')
          = Inr (canonical_date (WeekDay (MakeDay (currentYear pf) 6 4 * msPerDay)) 6 4
                   (currentYear pf)
                 @ str '' - Fri, Jul 5, 2024'')"
    if h: "lowercases_ascii pf" "100 \<le> currentYear pf" "currentYear pf \<le> 275759"
  proof -
    have t: "trim (str ''Jul 4 '') = str ''Jul 4''"
      "trim (str '' Jul 5, 2024'') = str ''Jul 5, 2024''"
      by code_simp+
    have n: "ch CHR ''-'' \<notin> set (str ''Jul 4 '')" "ch CHR ''-'' \<notin> set (str '' Jul 5, 2024'')"
      by code_simp+
    have "formatDate pf (str ''Jul 4 '' @ str ''-'' @ str '' Jul 5, 2024'')
        = Inr (canonical_date (WeekDay (MakeDay (currentYear pf) 6 4 * msPerDay)) 6 4
                 (currentYear pf)
               @ str '' - '' @ str ''Fri, Jul 5, 2024'')"
      using n by (rule formatDate_range_join) (simp_all only: t parse_Jul_4[OF h] parse_Jul_5_2024[OF h(1)])
    then show ?thesis by (simp add: str_def)
  qed
  have c: "canonical_date (WeekDay (MakeDay 2024 6 4 * msPerDay)) 6 4 2024
             = str ''Thu, Jul 4, 2024''"
    by code_simp
  have this_year: "formatDate pf (str ''Jul 4 - Jul 5, 2024'')
          = Inr (str ''Thu, Jul 4, 2024 - Fri, Jul 5, 2024'')"
    if "lowercases_ascii pf" "currentYear pf = 2024"
    using any_year that by (simp add: c) (simp add: str_def)
  show ?thesis
    using join format_fields_default_year[of pf d mo dy] any_year this_year by blast
qed

theorem formatDate_range_witness:
  "formatDate (example_platform 2025) (str ''Aug 1 - Aug 3, 2025'')
     = Inr (str ''Fri, Aug 1, 2025 - Sun, Aug 3, 2025'')
   \<and> formatDate (example_platform 2025) (str ''Jul 4 - Jul 5, 2024'')
     = Inr (str ''Fri, Jul 4, 2025 - Fri, Jul 5, 2024'')
   \<and> formatDate (example_platform 2024) (str ''Jul 4 - Jul 5, 2024'')
     = Inr (str ''Thu, Jul 4, 2024 - Fri, Jul 5, 2024'')"
proof -
  let ?pf = "example_platform 2025"
  have n: "ch CHR ''-'' \<notin> set (str ''Aug 1 '')" "ch CHR ''-'' \<notin> set (str '' Aug 3, 2025'')"
    by code_simp+
  have p: "parseSingleDate ?pf (trim (str ''Aug 1 '')) = Inr (str ''Fri, Aug 1, 2025'')"
    "parseSingleDate ?pf (trim (str '' Aug 3, 2025'')) = Inr (str ''Sun, Aug 3, 2025'')"
    by code_simp+
  have c: "canonical_date (WeekDay (MakeDay 2025 6 4 * msPerDay)) 6 4 2025
             = str ''Fri, Jul 4, 2025''"
    by code_simp
  have y: "currentYear ?pf = 2025" "currentYear (example_platform 2024) = 2024"
    by (simp_all add: example_platform_def)
  from formatDate_range[of "str ''Aug 1 ''" "str '' Aug 3, 2025''" ?pf] n p
  have "formatDate ?pf (str ''Aug 1 '' @ str ''-'' @ str '' Aug 3, 2025'')
          = Inr (str ''Fri, Aug 1, 2025'' @ str '' - '' @ str ''Sun, Aug 3, 2025'')" by blast
  then have first: "formatDate ?pf (str ''Aug 1 - Aug 3, 2025'')
     = Inr (str ''Fri, Aug 1, 2025 - Sun, Aug 3, 2025'')"
    by (simp add: str_def)
  from formatDate_range[of _ _ ?pf] example_platform_lowercases[of 2025] y(1)
  have "formatDate ?pf (str ''Jul 4 - Jul 5, 2024'')
          = Inr (canonical_date (WeekDay (MakeDay 2025 6 4 * msPerDay)) 6 4 2025
                 @ str '' - Fri, Jul 5, 2024'')" by simp
  then have second: "formatDate ?pf (str ''Jul 4 - Jul 5, 2024'')
     = Inr (str ''Fri, Jul 4, 2025 - Fri, Jul 5, 2024'')"
    by (simp add: c) (simp add: str_def)
  from formatDate_range[of _ _ "example_platform 2024"]
  have "lowercases_ascii (example_platform 2024) \<and> currentYear (example_platform 2024) = 2024
        \<longrightarrow> formatDate (example_platform 2024) (str ''Jul 4 - Jul 5, 2024'')
          = Inr (str ''Thu, Jul 4, 2024 - Fri, Jul 5, 2024'')" by blast
  with example_platform_lowercases[of 2024] y(2)
  have third: "formatDate (example_platform 2024) (str ''Jul 4 - Jul 5, 2024'')
     = Inr (str ''Thu, Jul 4, 2024 - Fri, Jul 5, 2024'')" by blast
  show ?thesis using first second third by simp
qed

subsection \<open>Failed reads and abandoned blocks\<close>

text \<open>
  When reading a field fails (the selector matches nothing in the block), the text and
  the link read for it are the empty string, the loop iteration for the entry completes
  without an exception, exactly as for a matching sub-element with empty text, and the
  loop goes on. A block is abandoned with an exception only when the date text was read
  successfully and \<^verbatim>\<open>formatDate\<close> throws on it.
\<close>

lemma failed_read_gives_empty_text:
  assumes "selector \<noteq> []" and "el selector = None"
  shows "eval_text el selector = []
     \<and> eval_href el selector = Some []
     \<and> (\<exists>st'. field_step pf el label (key, Some selector) st = Inr st')
     \<and> field_step pf el label (key, Some selector) st =
         field_step pf (el(selector \<mapsto> \<lparr>textContent = Some [], href = Some []\<rparr>)) label
           (key, Some selector) st
     \<and> (\<forall>e. scrape_element pf sels websiteKey label el = Inl e \<longrightarrow>
           e = TypeError \<and> dateSelector sels \<noteq> selector \<and> el (dateSelector sels) \<noteq> None
           \<and> formatDate pf (eval_text el (dateSelector sels)) = Inl e)
     \<and> (el (dateSelector sels) = None
           \<or> (\<exists>d. formatDate pf (eval_text el (dateSelector sels)) = Inr d) \<longrightarrow>
         (\<exists>r. scrape_element pf sels websiteKey label el = Inr r))"
proof -
  have t: "eval_text el selector = []" and h: "eval_href el selector = Some []"
    using assms(2) by (simp_all add: eval_text_def eval_href_def)
  let ?el' = "el(selector \<mapsto> \<lparr>textContent = Some [], href = Some []\<rparr>)"
  have t': "eval_text ?el' selector = []" and h': "eval_href ?el' selector = Some []"
    by (simp_all add: eval_text_def eval_href_def trim_def)
  have same: "field_step pf el label (key, Some selector) st =
      field_step pf ?el' label (key, Some selector) st"
    by (simp add: field_step_def Let_def t h t' h')
  have ok: "\<exists>st'. field_step pf el label (key, Some selector) st = Inr st'"
    using assms(1) by (simp add: field_step_def Let_def t h formatDate_empty)
  have abort: "e = TypeError \<and> dateSelector sels \<noteq> selector \<and> el (dateSelector sels) \<noteq> None
           \<and> formatDate pf (eval_text el (dateSelector sels)) = Inl e"
    if "scrape_element pf sels websiteKey label el = Inl e" for e
    using scrape_element_Inl[OF that] assms(2)
      formatDate_throws_iff[of pf "eval_text el (dateSelector sels)" e] by auto
  have yields: "\<exists>r. scrape_element pf sels websiteKey label el = Inr r"
    if "el (dateSelector sels) = None
        \<or> (\<exists>d. formatDate pf (eval_text el (dateSelector sels)) = Inr d)"
  proof (cases "scrape_element pf sels websiteKey label el")
    case (Inl e)
    from scrape_element_Inl[OF this] that show ?thesis by auto
  next
    case (Inr r)
    then show ?thesis by blast
  qed
  show ?thesis using t h same ok abort yields by blast
qed

text \<open>
  C6 (the code departs from the claim). The claim: when the read of one field fails, the
  block still yields its record. In the block \<open>open_range_block\<close> the price selector
  matches nothing, so the read of the price fails and gives the empty string; the text of
  its date is \<^verbatim>\<open>Jul 4 -\<close>, on which \<^verbatim>\<open>formatDate\<close> throws a TypeError, because the empty right
  side of the range has no first part. The exception is not caught: the block yields no
  record, and \<^verbatim>\<open>scrapeEvents\<close> rejects for the whole page, also for the block before it
  that reads well.
\<close>

theorem scrapeEvents_failed_read_block_abandoned:
  "open_range_block (priceSelector mockSelectors) = None
   \<and> eval_text open_range_block (priceSelector mockSelectors) = []
   \<and> eval_text open_range_block (dateSelector mockSelectors) = str ''Jul 4 -''
   \<and> formatDate pf (str ''Jul 4 -'') = Inl TypeError
   \<and> scrape_element pf mockSelectors websiteKey venueLabel open_range_block = Inl TypeError
   \<and> (\<exists>r. scrape_element pf mockSelectors websiteKey venueLabel mock_element = Inr r)
   \<and> scrapeEvents pf (\<lambda>_. [mock_element, open_range_block]) mockSelectors eventListSelector
        websiteKey venueLabel = Inl TypeError"
proof -
  have none: "open_range_block (priceSelector mockSelectors) = None"
    by (simp add: open_range_block_def)
  have price: "eval_text open_range_block (priceSelector mockSelectors) = []"
    by (simp add: eval_text_def none)
  have date: "eval_text open_range_block (dateSelector mockSelectors) = str ''Jul 4 -''"
    by code_simp
  have sel: "dateSelector mockSelectors \<noteq> []"
    by (simp add: mockSelectors_def str_def)
  have p: "pieces (str ''Jul 4 -'') = [str ''Jul 4'', []]" by code_simp
  have t: "trim (str ''Jul 4 -'') \<noteq> [] \<and> str ''Jul 4 -'' \<noteq> str ''mockValue''" by code_simp
  have "\<not> has_first_part []" by (simp add: has_first_part_def parts_of_Nil)
  with p t have throws: "formatDate pf (str ''Jul 4 -'') = Inl TypeError"
    by (simp add: formatDate_throws_iff)
  have bad: "scrape_element pf mockSelectors websiteKey venueLabel open_range_block
      = Inl TypeError"
    using sel by (simp add: scrape_element_closed_form date throws)
  have good_date: "eval_text mock_element (dateSelector mockSelectors) = str ''Jul 4, 2024''"
    by code_simp
  have q: "pieces (str ''Jul 4, 2024'') = [str ''Jul 4, 2024'']" by code_simp
  have "has_first_part (str ''Jul 4, 2024'')" by code_simp
  with q formatDate_returns[of "str ''Jul 4, 2024''" pf]
  obtain d where d: "formatDate pf (str ''Jul 4, 2024'') = Inr d" by auto
  have good: "\<exists>r. scrape_element pf mockSelectors websiteKey venueLabel mock_element = Inr r"
    using sel by (simp add: scrape_element_closed_form good_date d)
  then obtain r where "scrape_element pf mockSelectors websiteKey venueLabel mock_element = Inr r"
    by blast
  with bad have page: "scrapeEvents pf (\<lambda>_. [mock_element, open_range_block]) mockSelectors
      eventListSelector websiteKey venueLabel = Inl TypeError"
    by (simp add: scrapeEvents_def)
  show ?thesis using none price date throws bad good page by blast
qed

theorem scrapeEvents_failed_read_block_abandoned_witness:
  "scrape_element (example_platform 2024) mockSelectors (str ''testSite'') (str ''Test Venue'')
     open_range_block = Inl TypeError
   \<and> scrape_element (example_platform 2024) mockSelectors (str ''testSite'') (str ''Test Venue'')
       (open_range_block(str ''.date'' \<mapsto> \<lparr>textContent = Some (str ''Jul 4''), href = None\<rparr>))
     = Inr \<lparr>website = Some (str ''testSite''), venue = Some (str ''Doors 7pm''),
            price = Some [], event = Some (str ''Doors 7pm''),
            date = Some (str ''Thu, Jul 4, 2024''), ticketLink = None\<rparr>"
proof -
  have "scrape_element (example_platform 2024) mockSelectors (str ''testSite'')
      (str ''Test Venue'')
       (open_range_block(str ''.date'' \<mapsto> \<lparr>textContent = Some (str ''Jul 4''), href = None\<rparr>))
     = Inr \<lparr>website = Some (str ''testSite''), venue = Some (str ''Doors 7pm''),
            price = Some [], event = Some (str ''Doors 7pm''),
            date = Some (str ''Thu, Jul 4, 2024''), ticketLink = None\<rparr>"
    by code_simp
  with scrapeEvents_failed_read_block_abandoned
    [of "example_platform 2024" "str ''testSite''" "str ''Test Venue''"]
  show ?thesis by blast
qed

end
